theory Spec2Isabelle
  imports Complex_Main "HOL-Library.Log_Nat" "HOL-Library.Sublist" "HOL-Library.Multiset"
begin

section \<open>JavaScript numbers\<close>

text \<open>
  A JavaScript number is an IEEE 754 binary64 value. The finite ones are modelled by the
  rational they denote, next to the two infinities and NaN. The two zeros are one value
  \<open>Fin 0\<close>: the sign of a zero is visible only through a division by it, and the one
  division of the program divides by \<open>S + 50\<close>, a sum that is never the negative zero.
\<close>

datatype number = Fin rat | PosInf | NegInf | NaN

text \<open>The binary exponent of a non-zero rational: \<open>2 ^ expo x \<le> |x| < 2 ^ (expo x + 1)\<close>.\<close>

definition expo :: "rat \<Rightarrow> int" where
  "expo x = (case quotient_of \<bar>x\<bar> of (p, q) \<Rightarrow>
     let d = bitlen p - bitlen q in if 2 powi d \<le> \<bar>x\<bar> then d else d - 1)"

text \<open>Rounding to the nearest integer, a tie going to the even one.\<close>

definition rne :: "rat \<Rightarrow> int" where
  "rne q = (let f = \<lfloor>q\<rfloor>; r = q - of_int f in
     if r < 1 / 2 then f else if 1 / 2 < r then f + 1 else if even f then f else f + 1)"

text \<open>
  The spacing of the binary64 values around \<open>x\<close>: 53 significant bits, and the fixed
  spacing \<open>2 ^ -1074\<close> of the subnormal range below \<open>2 ^ -1022\<close>.
\<close>

definition ulp :: "rat \<Rightarrow> rat" where
  "ulp x = 2 powi (max (expo x) (- 1022) - 52)"

text \<open>
  The binary64 value of an exact result (round to nearest, ties to even): the nearest
  multiple of the spacing, an infinity once that reaches \<open>2 ^ 1024\<close>.
\<close>

definition round64 :: "rat \<Rightarrow> number" where
  "round64 x = (if x = 0 then Fin 0 else
     let y = of_int (rne (x / ulp x)) * ulp x
     in if 2 powi 1024 \<le> y then PosInf else if y \<le> - (2 powi 1024) then NegInf else Fin y)"

fun jneg :: "number \<Rightarrow> number" where
  "jneg (Fin x) = Fin (- x)"
| "jneg PosInf = NegInf"
| "jneg NegInf = PosInf"
| "jneg NaN = NaN"

text \<open>The operators \<open>+\<close>, \<open>-\<close>, \<open>*\<close> and \<open>/\<close> on numbers.\<close>

fun jadd :: "number \<Rightarrow> number \<Rightarrow> number" where
  "jadd (Fin x) (Fin y) = round64 (x + y)"
| "jadd NaN b = NaN"
| "jadd a NaN = NaN"
| "jadd PosInf NegInf = NaN"
| "jadd NegInf PosInf = NaN"
| "jadd (Fin x) b = b"
| "jadd a b = a"

definition jsub :: "number \<Rightarrow> number \<Rightarrow> number" where
  "jsub a b = jadd a (jneg b)"

fun jmul :: "number \<Rightarrow> number \<Rightarrow> number" where
  "jmul (Fin x) (Fin y) = round64 (x * y)"
| "jmul NaN b = NaN"
| "jmul a NaN = NaN"
| "jmul (Fin x) b = (if x = 0 then NaN else if 0 < x then b else jneg b)"
| "jmul a (Fin y) = (if y = 0 then NaN else if 0 < y then a else jneg a)"
| "jmul a b = (if a = b then PosInf else NegInf)"

fun jdiv :: "number \<Rightarrow> number \<Rightarrow> number" where
  "jdiv (Fin x) (Fin y) =
     (if y = 0 then (if x = 0 then NaN else if 0 < x then PosInf else NegInf)
      else round64 (x / y))"
| "jdiv NaN b = NaN"
| "jdiv a NaN = NaN"
| "jdiv (Fin x) b = Fin 0"
| "jdiv a (Fin y) = (if 0 \<le> y then a else jneg a)"
| "jdiv a b = NaN"

text \<open>The comparisons \<open><\<close> and \<open><=\<close>; \<open>a > b\<close> is \<open>jless b a\<close>. NaN compares false.\<close>

fun jless :: "number \<Rightarrow> number \<Rightarrow> bool" where
  "jless (Fin x) (Fin y) = (x < y)"
| "jless NaN b = False"
| "jless a NaN = False"
| "jless a NegInf = False"
| "jless PosInf b = False"
| "jless a b = True"

definition jle :: "number \<Rightarrow> number \<Rightarrow> bool" where
  "jle a b = (a \<noteq> NaN \<and> b \<noteq> NaN \<and> \<not> jless b a)"

text \<open>\<open>Math.floor\<close>, and \<open>Math.round\<close>, which is \<open>floor (x + 0.5)\<close> computed exactly.\<close>

fun Math_floor :: "number \<Rightarrow> number" where
  "Math_floor (Fin x) = Fin (of_int \<lfloor>x\<rfloor>)"
| "Math_floor a = a"

fun Math_round :: "number \<Rightarrow> number" where
  "Math_round (Fin x) = Fin (of_int \<lfloor>x + 1 / 2\<rfloor>)"
| "Math_round a = a"

text \<open>A number is falsy when it is zero or NaN.\<close>

fun truthy :: "number \<Rightarrow> bool" where
  "truthy (Fin x) = (x \<noteq> 0)"
| "truthy NaN = False"
| "truthy a = True"

section \<open>Numbers in template literals\<close>

definition digit_char :: "nat \<Rightarrow> char" where
  "digit_char d = ''0123456789'' ! d"

fun string_of_nat :: "nat \<Rightarrow> string" where
  "string_of_nat n =
     (if n < 10 then [digit_char n] else string_of_nat (n div 10) @ [digit_char (n mod 10)])"

declare string_of_nat.simps [simp del]

text \<open>
  The string of a number inside a template literal. The finite numbers that reach the
  template of \<open>calculateTimeSaved\<close> are results of \<open>Math.floor\<close> and \<open>Math.round\<close>:
  integers, and below the \<open>10 ^ 21\<close> from which JavaScript writes an exponent, since the
  quotient \<open>S / (S + 50)\<close> is at most about \<open>50 * 2 ^ 47\<close> in size. They are written in
  decimal digits, the zero without a sign. An array index is a natural number and goes
  through \<open>string_of_nat\<close> directly.
\<close>

fun NumberToString :: "number \<Rightarrow> string" where
  "NumberToString (Fin x) =
     (if x < 0 then ''-'' @ string_of_nat (nat (- \<lfloor>x\<rfloor>)) else string_of_nat (nat \<lfloor>x\<rfloor>))"
| "NumberToString PosInf = ''Infinity''"
| "NumberToString NegInf = ''-Infinity''"
| "NumberToString NaN = ''NaN''"

section \<open>The time-saved estimate\<close>

text \<open>\<open>calculateTimeSaved\<close> of the upload component.\<close>

definition calculateTimeSaved :: "number \<Rightarrow> number \<Rightarrow> string" where
  "calculateTimeSaved pages clauses =
     (let S = jadd (jmul pages (Fin 2)) (jmul clauses (Fin (3 / 2)));
          timeSavedHours = jadd (Fin 1) (jdiv S (jadd S (Fin 50)));
          hours = Math_floor timeSavedHours;
          minutes = Math_round (jmul (jsub timeSavedHours hours) (Fin 60))
      in NumberToString hours @ '' hr '' @ NumberToString minutes @ '' min'')"

text \<open>\<open>calculateTimeSaved\<close> of the Dashboard page.\<close>

definition calculateTimeSaved_Dashboard :: "number \<Rightarrow> number \<Rightarrow> string" where
  "calculateTimeSaved_Dashboard pages clauses =
     (let S = jadd (jmul pages (Fin 2)) (jmul clauses (Fin (3 / 2)));
          timeSavedHours = jadd (Fin 1) (jdiv S (jadd S (Fin 50)));
          hours = Math_floor timeSavedHours;
          minutes = Math_round (jmul (jsub timeSavedHours hours) (Fin 60))
      in NumberToString hours @ '' hr '' @ NumberToString minutes @ '' min'')"

text \<open>The two intermediate values of both functions, named for the statements below.\<close>

definition score :: "number \<Rightarrow> number \<Rightarrow> number" where
  "score pages clauses = jadd (jmul pages (Fin 2)) (jmul clauses (Fin (3 / 2)))"

definition timeSavedHours :: "number \<Rightarrow> number" where
  "timeSavedHours S = jadd (Fin 1) (jdiv S (jadd S (Fin 50)))"

text \<open>The formula as the specification writes it, on the same number operations.\<close>

definition estimate :: "number \<Rightarrow> number \<Rightarrow> string" where
  "estimate pageCount totalClauses =
     (let S = score pageCount totalClauses;
          t = timeSavedHours S;
          hours = Math_floor t;
          minutes = Math_round (jmul (jsub t hours) (Fin 60))
      in NumberToString hours @ '' hr '' @ NumberToString minutes @ '' min'')"

text \<open>The rounded value before the overflow test of \<open>round64\<close>.\<close>

definition nearest :: "rat \<Rightarrow> rat" where
  "nearest x = of_int (rne (x / ulp x)) * ulp x"

text \<open>The numbers that binary64 holds exactly.\<close>

definition is_double :: "rat \<Rightarrow> bool" where
  "is_double x = (round64 x = Fin x)"

text \<open>
  The value of \<open>timeSavedHours\<close> at \<open>S = n / 2\<close> while \<open>S + 50\<close> is exact: the
  quotient \<open>n / (n + 100)\<close> rounded, one added, and rounded again.
\<close>

definition tsh_half :: "nat \<Rightarrow> rat" where
  "tsh_half n = nearest (1 + nearest (of_nat n / of_nat (n + 100)))"

section \<open>The backend response\<close>

text \<open>
  The payload of \<open>/upload-document/\<close> with the fields the upload component reads, each
  of the type its cast names and optional: an absent field reads as \<open>undefined\<close>.
\<close>

record clause_assessment =
  ca_clause_text :: "string option"
  ca_risk_level :: "string option"
  ca_reasoning :: "string option"
  ca_potential_issues :: "string list option"

record risk_assessment_in =
  ra_document_name :: "string option"
  ra_clause_assessments :: "clause_assessment list option"
  ra_recommendations :: "string list option"

record risk_summary =
  rs_high_risk_clauses :: "number option"
  rs_medium_risk_clauses :: "number option"
  rs_low_risk_clauses :: "number option"
  rs_total_clauses_assessed :: "number option"

record response =
  resp_risk_assessment :: "risk_assessment_in option"
  resp_risk_summary :: "risk_summary option"
  resp_page_count :: "number option"
  resp_gcs_uri :: "string option"

section \<open>The document analysis record\<close>

datatype risk = RiskHigh | RiskMedium | RiskLow

record RiskImpact =
  ri_id :: string
  ri_name :: string
  ri_description :: string
  ri_risk :: risk

text \<open>The \<open>value\<close> of a bucket is the length of an array, a natural number.\<close>

record RiskData =
  rd_name :: string
  rd_value :: nat
  rd_color :: string
  rd_impacts :: "RiskImpact list"

record risk_assessment_out =
  preserved :: risk_assessment_in
  gcs_uri :: string
  high :: "RiskImpact list"
  medium :: "RiskImpact list"
  low :: "RiskImpact list"

record DocumentAnalysisData =
  document_name :: string
  total_clauses :: number
  flagged_clauses :: number
  time_saved :: string
  risk_assessment :: risk_assessment_out
  risk_data :: "RiskData list"
  upload_time :: string
  page_count :: number

section \<open>processResponseData\<close>

text \<open>\<open>x || d\<close> on an optional number and on an optional string.\<close>

definition num_or :: "number option \<Rightarrow> number \<Rightarrow> number" where
  "num_or x d = (case x of None \<Rightarrow> d | Some n \<Rightarrow> if truthy n then n else d)"

definition str_or :: "string option \<Rightarrow> string \<Rightarrow> string" where
  "str_or x d = (case x of None \<Rightarrow> d | Some s \<Rightarrow> if s = [] then d else s)"

text \<open>
  One of the three blocks that fill \<open>riskData\<close>: the clauses of one level, in their
  order, counted and mapped with their index among them.
\<close>

definition clausesList :: "string \<Rightarrow> clause_assessment list \<Rightarrow> clause_assessment list" where
  "clausesList level clauseAssessments =
     filter (\<lambda>clause. ca_risk_level clause = Some level) clauseAssessments"

definition impactsOf ::
  "string \<Rightarrow> string \<Rightarrow> risk \<Rightarrow> clause_assessment list \<Rightarrow> RiskImpact list" where
  "impactsOf level fallback r cs =
     map (\<lambda>(clause, index).
            \<lparr>ri_id = level @ ''-'' @ string_of_nat index,
             ri_name = ''Clause '' @ string_of_nat (index + 1),
             ri_description = str_or (ca_reasoning clause) fallback,
             ri_risk = r\<rparr>)
         (zip cs [0..<length cs])"

definition riskBucket ::
  "string \<Rightarrow> string \<Rightarrow> string \<Rightarrow> string \<Rightarrow> risk \<Rightarrow> clause_assessment list \<Rightarrow> RiskData" where
  "riskBucket name color level fallback r clauseAssessments =
     (let list = clausesList level clauseAssessments
      in \<lparr>rd_name = name, rd_value = length list, rd_color = color,
          rd_impacts = impactsOf level fallback r list\<rparr>)"

text \<open>
  The construction of \<open>riskData\<close>: the bucket of a level is pushed when the count that
  the risk summary gives for the level is positive.
\<close>

definition riskDataOf ::
  "number \<Rightarrow> number \<Rightarrow> number \<Rightarrow> clause_assessment list \<Rightarrow> RiskData list" where
  "riskDataOf highRiskClauses mediumRiskClauses lowRiskClauses clauseAssessments =
     (if jless (Fin 0) highRiskClauses
      then [riskBucket ''High'' ''#ef4444'' ''high'' ''High risk clause identified''
              RiskHigh clauseAssessments]
      else []) @
     (if jless (Fin 0) mediumRiskClauses
      then [riskBucket ''Medium'' ''#eab308'' ''medium'' ''Medium risk clause identified''
              RiskMedium clauseAssessments]
      else []) @
     (if jless (Fin 0) lowRiskClauses
      then [riskBucket ''Low'' ''#22c55e'' ''low'' ''Low risk clause identified''
              RiskLow clauseAssessments]
      else [])"

text \<open>\<open>riskData.find((item) => item.name === n)?.impacts || []\<close>\<close>

definition findImpacts :: "string \<Rightarrow> RiskData list \<Rightarrow> RiskImpact list" where
  "findImpacts n riskData =
     (case find (\<lambda>item. rd_name item = n) riskData of
        None \<Rightarrow> [] | Some item \<Rightarrow> rd_impacts item)"

definition emptyAssessment :: risk_assessment_in where
  "emptyAssessment =
     \<lparr>ra_document_name = None, ra_clause_assessments = None, ra_recommendations = None\<rparr>"

definition emptySummary :: risk_summary where
  "emptySummary =
     \<lparr>rs_high_risk_clauses = None, rs_medium_risk_clauses = None,
      rs_low_risk_clauses = None, rs_total_clauses_assessed = None\<rparr>"

text \<open>
  \<open>processResponseData\<close> of the upload component. The name of the uploaded file and the
  time string of \<open>new Date().toLocaleString()\<close> are arguments.
\<close>

definition processResponseData :: "response \<Rightarrow> string \<Rightarrow> string \<Rightarrow> DocumentAnalysisData" where
  "processResponseData responseData fileName now =
     (let riskAssessment =
            (case resp_risk_assessment responseData of None \<Rightarrow> emptyAssessment | Some a \<Rightarrow> a);
          riskSummary =
            (case resp_risk_summary responseData of None \<Rightarrow> emptySummary | Some s \<Rightarrow> s);
          highRiskClauses = num_or (rs_high_risk_clauses riskSummary) (Fin 0);
          mediumRiskClauses = num_or (rs_medium_risk_clauses riskSummary) (Fin 0);
          lowRiskClauses = num_or (rs_low_risk_clauses riskSummary) (Fin 0);
          totalClauses = num_or (rs_total_clauses_assessed riskSummary) (Fin 0);
          clauseAssessments =
            (case ra_clause_assessments riskAssessment of None \<Rightarrow> [] | Some cs \<Rightarrow> cs);
          riskData = riskDataOf highRiskClauses mediumRiskClauses lowRiskClauses clauseAssessments;
          flaggedClauses = jadd highRiskClauses mediumRiskClauses;
          gcsUri = str_or (resp_gcs_uri responseData) [];
          pageCount = num_or (resp_page_count responseData) (Fin 24);
          timeSaved = calculateTimeSaved pageCount totalClauses
      in \<lparr>document_name = str_or (ra_document_name riskAssessment) fileName,
          total_clauses = totalClauses,
          flagged_clauses = flaggedClauses,
          time_saved = timeSaved,
          risk_assessment =
            \<lparr>preserved = riskAssessment, gcs_uri = gcsUri,
             high = findImpacts ''High'' riskData,
             medium = findImpacts ''Medium'' riskData,
             low = findImpacts ''Low'' riskData\<rparr>,
          risk_data = riskData,
          upload_time = now,
          page_count = pageCount\<rparr>)"

text \<open>The parts of \<open>processResponseData\<close> that the statements below name.\<close>

definition clauseAssessmentsOf :: "response \<Rightarrow> clause_assessment list" where
  "clauseAssessmentsOf responseData =
     (case resp_risk_assessment responseData of
        None \<Rightarrow> []
      | Some a \<Rightarrow> (case ra_clause_assessments a of None \<Rightarrow> [] | Some cs \<Rightarrow> cs))"

definition summaryOf :: "response \<Rightarrow> risk_summary" where
  "summaryOf responseData =
     (case resp_risk_summary responseData of None \<Rightarrow> emptySummary | Some s \<Rightarrow> s)"

definition bucketsNamed :: "string \<Rightarrow> RiskData list \<Rightarrow> RiskData list" where
  "bucketsNamed n riskData = filter (\<lambda>item. rd_name item = n) riskData"

definition countLevel :: "string \<Rightarrow> clause_assessment list \<Rightarrow> nat" where
  "countLevel level cs = length (filter (\<lambda>clause. ca_risk_level clause = Some level) cs)"

text \<open>A count of the risk summary after \<open>|| 0\<close>.\<close>

definition summaryCount :: "(risk_summary \<Rightarrow> number option) \<Rightarrow> response \<Rightarrow> number" where
  "summaryCount field responseData = num_or (field (summaryOf responseData)) (Fin 0)"

text \<open>The three risk levels of a clause assessment.\<close>

definition knownLevel :: "clause_assessment \<Rightarrow> bool" where
  "knownLevel clause =
     (ca_risk_level clause = Some ''high'' \<or> ca_risk_level clause = Some ''medium'' \<or>
      ca_risk_level clause = Some ''low'')"

subsection \<open>Example payloads\<close>

definition clauseOf :: "string \<Rightarrow> string \<Rightarrow> clause_assessment" where
  "clauseOf level why =
     \<lparr>ca_clause_text = Some ''Either party may terminate this agreement.'',
      ca_risk_level = Some level, ca_reasoning = Some why, ca_potential_issues = None\<rparr>"

text \<open>The empty object \<open>{}\<close>.\<close>

definition payload_empty :: response where
  "payload_empty =
     \<lparr>resp_risk_assessment = None, resp_risk_summary = None,
      resp_page_count = None, resp_gcs_uri = None\<rparr>"

text \<open>A payload with one high-risk clause assessment and no risk summary.\<close>

definition payload_one_high_clause :: response where
  "payload_one_high_clause =
     payload_empty\<lparr>resp_risk_assessment :=
       Some (emptyAssessment\<lparr>ra_clause_assessments :=
         Some [clauseOf ''high'' ''No notice period'']\<rparr>)\<rparr>"

text \<open>A risk summary with counts 2, 1, 0 and no clause assessments.\<close>

definition payload_counts_only :: response where
  "payload_counts_only =
     payload_empty\<lparr>resp_risk_summary :=
       Some \<lparr>rs_high_risk_clauses = Some (Fin 2), rs_medium_risk_clauses = Some (Fin 1),
             rs_low_risk_clauses = Some (Fin 0), rs_total_clauses_assessed = Some (Fin 3)\<rparr>\<rparr>"

text \<open>A risk summary that reports one high-risk clause and nothing else.\<close>

definition payload_high_count_only :: response where
  "payload_high_count_only =
     payload_empty\<lparr>resp_risk_summary :=
       Some (emptySummary\<lparr>rs_high_risk_clauses := Some (Fin 1)\<rparr>)\<rparr>"

text \<open>Four clause assessments with a summary that agrees with them, on 12 pages.\<close>

definition payload_consistent :: response where
  "payload_consistent =
     \<lparr>resp_risk_assessment =
        Some \<lparr>ra_document_name = Some ''lease.pdf'',
              ra_clause_assessments =
                Some [clauseOf ''high'' ''No notice period'', clauseOf ''medium'' [],
                      clauseOf ''high'' ''Unlimited liability'', clauseOf ''low'' ''Standard''],
              ra_recommendations = None\<rparr>,
      resp_risk_summary =
        Some \<lparr>rs_high_risk_clauses = Some (Fin 2), rs_medium_risk_clauses = Some (Fin 1),
              rs_low_risk_clauses = Some (Fin 1), rs_total_clauses_assessed = Some (Fin 4)\<rparr>,
      resp_page_count = Some (Fin 12), resp_gcs_uri = Some ''gs://bucket/lease.pdf''\<rparr>"

text \<open>A payload whose page count is \<open>-5\<close>.\<close>

definition payload_negative_pages :: response where
  "payload_negative_pages = payload_empty\<lparr>resp_page_count := Some (Fin (- 5))\<rparr>"

section \<open>The clause search of the detailed analysis page\<close>

text \<open>
  Strings are lists of characters with codes below 256, read as the first 256 code points
  of Unicode. There \<open>toLowerCase\<close> moves the letters A to Z and the accented capitals
  192 to 222 (without the multiplication sign 215) up by 32, and the white space that
  \<open>trim\<close> removes is tab, line feed, vertical tab, form feed, carriage return, space
  and the no-break space.
\<close>

record Clause =
  title :: string
  risk :: risk
  summary :: string
  impact :: string
  fullText :: string
  marketComparison :: string
  recommendations :: "string list"
  riskDetails :: string

definition toLowerCase_char :: "char \<Rightarrow> char" where
  "toLowerCase_char c =
     (let n = (of_char c :: nat)
      in if (65 \<le> n \<and> n \<le> 90) \<or> (192 \<le> n \<and> n \<le> 222 \<and> n \<noteq> 215)
         then char_of (n + 32) else c)"

definition toLowerCase :: "string \<Rightarrow> string" where
  "toLowerCase s = map toLowerCase_char s"

definition isWhiteSpace :: "char \<Rightarrow> bool" where
  "isWhiteSpace c = ((of_char c :: nat) \<in> {9, 10, 11, 12, 13, 32, 160})"

definition trim :: "string \<Rightarrow> string" where
  "trim s = rev (dropWhile isWhiteSpace (rev (dropWhile isWhiteSpace s)))"

text \<open>\<open>s.split(' ')\<close>: the pieces between single spaces, empty pieces kept.\<close>

fun split_space :: "string \<Rightarrow> string list" where
  "split_space [] = [[]]"
| "split_space (c # cs) =
     (if c = CHR '' '' then [] # split_space cs
      else (case split_space cs of [] \<Rightarrow> [[c]] | t # ts \<Rightarrow> (c # t) # ts))"

text \<open>\<open>s.includes(t)\<close>: \<open>t\<close> occurs in \<open>s\<close> as a substring.\<close>

fun startsWith :: "string \<Rightarrow> string \<Rightarrow> bool" where
  "startsWith s [] = True"
| "startsWith [] (t # ts) = False"
| "startsWith (c # cs) (t # ts) = (c = t \<and> startsWith cs ts)"

fun str_includes :: "string \<Rightarrow> string \<Rightarrow> bool" where
  "str_includes [] t = (t = [])"
| "str_includes (c # cs) t = (startsWith (c # cs) t \<or> str_includes cs t)"

definition riskOrder :: "risk \<Rightarrow> nat" where
  "riskOrder r = (case r of RiskHigh \<Rightarrow> 0 | RiskMedium \<Rightarrow> 1 | RiskLow \<Rightarrow> 2)"

text \<open>
  \<open>sortClausesByRisk\<close> sorts with the comparator \<open>riskOrder[a.risk] - riskOrder[b.risk]\<close>.
  \<open>Array.prototype.sort\<close> is stable, so this is the stable sort by rank.
\<close>

definition sortClausesByRisk :: "Clause list \<Rightarrow> Clause list" where
  "sortClausesByRisk clauseList = sort_key (\<lambda>c. riskOrder (risk c)) clauseList"

definition searchableText :: "Clause \<Rightarrow> string" where
  "searchableText clause =
     toLowerCase (title clause @ '' '' @ summary clause @ '' '' @ impact clause)"

definition matchesQuery :: "string \<Rightarrow> Clause \<Rightarrow> bool" where
  "matchesQuery query clause =
     (let searchTerms = split_space (toLowerCase query)
      in list_ex (\<lambda>term. str_includes (searchableText clause) term) searchTerms)"

text \<open>\<open>performSemanticSearch\<close>: the value it passes to \<open>setFilteredClauses\<close>.\<close>

definition performSemanticSearch :: "Clause list \<Rightarrow> string \<Rightarrow> Clause list" where
  "performSemanticSearch clauses query =
     (if trim query = [] then sortClausesByRisk clauses
      else sortClausesByRisk (filter (matchesQuery query) clauses))"

text \<open>
  The search as the specification words it: the tokens of the query are its maximal runs
  of characters that are not white space, and a clause is kept when its text contains
  one of them.
\<close>

fun spec_tokens :: "string \<Rightarrow> string list" where
  "spec_tokens [] = []"
| "spec_tokens (c # cs) =
     (if isWhiteSpace c then spec_tokens cs
      else (case cs of
              [] \<Rightarrow> [[c]]
            | d # ds \<Rightarrow>
                if isWhiteSpace d then [c] # spec_tokens cs
                else (case spec_tokens cs of [] \<Rightarrow> [[c]] | t # ts \<Rightarrow> (c # t) # ts)))"

definition spec_matches :: "string \<Rightarrow> Clause \<Rightarrow> bool" where
  "spec_matches query clause =
     list_ex (\<lambda>token. str_includes (searchableText clause) token) (spec_tokens (toLowerCase query))"

subsection \<open>Example clauses\<close>

definition clause_termination :: Clause where
  "clause_termination =
     \<lparr>title = ''Clause 1'', risk = RiskLow, summary = ''Termination without notice'',
      impact = ''Tenant may lose the deposit'', fullText = ''Either party may terminate.'',
      marketComparison = ''Analysis based on industry standards and best practices'',
      recommendations = [], riskDetails = ''Termination without notice''\<rparr>"

definition clause_liability :: Clause where
  "clause_liability =
     \<lparr>title = ''Clause 2'', risk = RiskHigh, summary = ''Unlimited LIABILITY for damages'',
      impact = ''No cap on exposure'', fullText = ''The tenant is liable for all damages.'',
      marketComparison = ''Analysis based on industry standards and best practices'',
      recommendations = [], riskDetails = ''Unlimited LIABILITY for damages''\<rparr>"

definition clause_payment :: Clause where
  "clause_payment =
     \<lparr>title = ''Clause 3'', risk = RiskMedium, summary = ''Late payment fee'',
      impact = ''Interest accrues monthly'', fullText = ''Rent is due on the first.'',
      marketComparison = ''Analysis based on industry standards and best practices'',
      recommendations = [], riskDetails = ''Late payment fee''\<rparr>"

section \<open>Properties of the number model\<close>

lemma bitlen_powi:
  assumes "0 < p"
  shows "(2::rat) powi (bitlen p - 1) \<le> of_int p" "of_int p < (2::rat) powi (bitlen p)"
proof -
  from bitlen_bounds[OF assms] have a: "2 ^ nat (bitlen p - 1) \<le> p" and b: "p < 2 ^ nat (bitlen p)"
    by auto
  have pos: "1 \<le> bitlen p" using assms by (simp add: bitlen_alt_def)
  have "(of_int (2 ^ nat (bitlen p - 1)) :: rat) \<le> of_int p" using a by (simp only: of_int_le_iff)
  then show "(2::rat) powi (bitlen p - 1) \<le> of_int p" using pos by (simp add: power_int_def)
  have "(of_int p :: rat) < of_int (2 ^ nat (bitlen p))" using b by (simp only: of_int_less_iff)
  then show "of_int p < (2::rat) powi (bitlen p)" using pos by (simp add: power_int_def)
qed

lemma powi2_less_iff: "(2::rat) powi a < 2 powi b \<longleftrightarrow> a < b"
proof
  assume "(2::rat) powi a < 2 powi b"
  show "a < b"
  proof (rule ccontr)
    assume "\<not> a < b"
    then have "(2::rat) powi b \<le> 2 powi a" by (intro power_int_increasing) auto
    with \<open>(2::rat) powi a < 2 powi b\<close> show False by simp
  qed
next
  assume "a < b"
  then show "(2::rat) powi a < 2 powi b" by (intro power_int_strict_increasing) auto
qed

lemma powi2_le_iff: "(2::rat) powi a \<le> 2 powi b \<longleftrightarrow> a \<le> b"
  using powi2_less_iff[of b a] by (auto simp: not_less[symmetric])

lemma powi2_pos: "(0::rat) < 2 powi a"
  by (simp add: zero_less_power_int)

lemma powi2_split: "(2::rat) powi (a + b) = 2 powi a * 2 powi b"
  by (simp add: power_int_add)

lemma expo_bounds:
  assumes "x \<noteq> 0"
  shows "2 powi (expo x) \<le> \<bar>x\<bar> \<and> \<bar>x\<bar> < 2 powi (expo x + 1)"
proof -
  obtain p q where pq: "quotient_of \<bar>x\<bar> = (p, q)" by (cases "quotient_of \<bar>x\<bar>")
  then have q: "0 < q" and x: "\<bar>x\<bar> = of_int p / of_int q"
    using quotient_of_denom_pos quotient_of_div by blast+
  have "(0::rat) < of_int p / of_int q" using assms x by simp
  then have p: "0 < p" using q by (simp add: zero_less_divide_iff)
  let ?d = "bitlen p - bitlen q"
  note bp = bitlen_powi[OF p] and bq = bitlen_powi[OF q]
  have qpos: "(0::rat) < of_int q" using q by simp
  have up: "\<bar>x\<bar> < 2 powi (?d + 1)"
  proof -
    have "of_int p < (2::rat) powi (bitlen p)" by (rule bp)
    also have "\<dots> = 2 powi (?d + 1) * 2 powi (bitlen q - 1)"
      by (simp add: power_int_add[symmetric])
    also have "\<dots> \<le> 2 powi (?d + 1) * of_int q"
      using bq(1) by (intro mult_left_mono) auto
    finally show ?thesis using qpos by (simp add: x pos_divide_less_eq)
  qed
  have lo: "2 powi (?d - 1) \<le> \<bar>x\<bar>"
  proof -
    have "2 powi (?d - 1) * of_int q \<le> 2 powi (?d - 1) * (2::rat) powi (bitlen q)"
      using bq(2) by (intro mult_left_mono) auto
    also have "\<dots> = 2 powi (bitlen p - 1)" by (simp add: power_int_add[symmetric])
    also have "\<dots> \<le> of_int p" by (rule bp)
    finally show ?thesis using qpos by (simp add: x pos_le_divide_eq)
  qed
  show ?thesis
  proof (cases "2 powi ?d \<le> \<bar>x\<bar>")
    case True
    then have "expo x = ?d" by (simp add: expo_def pq Let_def)
    then show ?thesis using True up by simp
  next
    case False
    then have "expo x = ?d - 1" by (simp add: expo_def pq Let_def)
    then show ?thesis using False lo by simp
  qed
qed

lemma expo_unique:
  assumes "2 powi e \<le> \<bar>x\<bar>" "\<bar>x\<bar> < 2 powi (e + 1)"
  shows "expo x = e"
proof -
  have "0 < \<bar>x\<bar>" using assms(1) powi2_pos[of e] by linarith
  then have nz: "x \<noteq> 0" by simp
  note b = expo_bounds[OF nz]
  have "(2::rat) powi e < 2 powi (expo x + 1)" using assms(1) b by linarith
  then have 1: "e < expo x + 1" by (simp only: powi2_less_iff)
  have "(2::rat) powi (expo x) < 2 powi (e + 1)" using assms(2) b by linarith
  then have 2: "expo x < e + 1" by (simp only: powi2_less_iff)
  from 1 2 show ?thesis by simp
qed

lemma rne_of_int: "rne (of_int n) = n"
  by (simp add: rne_def)

lemma rne_lower: "\<lfloor>q\<rfloor> \<le> rne q"
  by (simp add: rne_def Let_def)

lemma rne_upper: "rne q \<le> \<lfloor>q\<rfloor> + 1"
  by (simp add: rne_def Let_def)

lemma rne_mono:
  assumes "a \<le> b"
  shows "rne a \<le> rne b"
proof (cases "\<lfloor>a\<rfloor> = \<lfloor>b\<rfloor>")
  case True
  then have "a - of_int \<lfloor>a\<rfloor> \<le> b - of_int \<lfloor>b\<rfloor>" using assms by simp
  then show ?thesis using True by (auto simp: rne_def Let_def)
next
  case False
  have "\<lfloor>a\<rfloor> \<le> \<lfloor>b\<rfloor>" using assms by (rule floor_mono)
  with False have "\<lfloor>a\<rfloor> + 1 \<le> \<lfloor>b\<rfloor>" by simp
  then show ?thesis using rne_upper[of a] rne_lower[of b] by linarith
qed

lemma ulp_pos: "0 < ulp x"
  by (simp add: ulp_def powi2_pos)

lemma round64_nearest:
  "round64 x = (if 2 powi 1024 \<le> nearest x then PosInf
                else if nearest x \<le> - (2 powi 1024) then NegInf else Fin (nearest x))"
proof (cases "x = 0")
  case True
  have "nearest 0 = 0" by (simp add: nearest_def rne_def)
  moreover have "\<not> (2::rat) powi 1024 \<le> 0" "\<not> (0::rat) \<le> - (2 powi 1024)"
    using powi2_pos[of 1024] by linarith+
  ultimately show ?thesis using True by (simp add: round64_def)
next
  case False
  then show ?thesis by (simp add: round64_def nearest_def Let_def)
qed

lemma nearest_scaled:
  assumes "ulp x = 2 powi k"
  shows "nearest x = of_int (rne (x * 2 powi (- k))) * 2 powi k"
  by (simp add: nearest_def assms power_int_minus divide_inverse)

lemma nearest_between:
  assumes u: "ulp x = 2 powi k" and lo: "2 powi (k + a) \<le> x" and hi: "x \<le> 2 powi (k + b)"
    and a: "0 \<le> a" and b: "0 \<le> b"
  shows "2 powi (k + a) \<le> nearest x \<and> nearest x \<le> 2 powi (k + b)"
proof -
  let ?s = "(2::rat) powi (- k)"
  have s: "0 < ?s" by (rule powi2_pos)
  have pa: "(2::rat) powi a = of_int (2 ^ nat a)" using a by (simp add: power_int_def)
  have pb: "(2::rat) powi b = of_int (2 ^ nat b)" using b by (simp add: power_int_def)
  have "2 powi (k + a) * ?s \<le> x * ?s" using lo s by (simp only: mult_le_cancel_right_pos)
  moreover have "2 powi (k + a) * ?s = (2::rat) powi a"
    by (simp add: power_int_add[symmetric])
  ultimately have "rne (of_int (2 ^ nat a)) \<le> rne (x * ?s)"
    by (intro rne_mono) (simp add: pa)
  then have 1: "(2::int) ^ nat a \<le> rne (x * ?s)" by (simp only: rne_of_int)
  have "x * ?s \<le> 2 powi (k + b) * ?s" using hi s by (simp only: mult_le_cancel_right_pos)
  moreover have "2 powi (k + b) * ?s = (2::rat) powi b"
    by (simp add: power_int_add[symmetric])
  ultimately have "rne (x * ?s) \<le> rne (of_int (2 ^ nat b))"
    by (intro rne_mono) (simp add: pb)
  then have 2: "rne (x * ?s) \<le> (2::int) ^ nat b" by (simp only: rne_of_int)
  have k: "(0::rat) < 2 powi k" by (rule powi2_pos)
  from 1 have "(of_int (2 ^ nat a) :: rat) \<le> of_int (rne (x * ?s))" by (simp only: of_int_le_iff)
  then have "(2::rat) powi a * 2 powi k \<le> of_int (rne (x * ?s)) * 2 powi k"
    using k by (simp only: pa mult_le_cancel_right_pos)
  moreover from 2 have "(of_int (rne (x * ?s)) :: rat) \<le> of_int (2 ^ nat b)" by (simp only: of_int_le_iff)
  then have "of_int (rne (x * ?s)) * 2 powi k \<le> (2::rat) powi b * 2 powi k"
    using k by (simp only: pb mult_le_cancel_right_pos)
  ultimately show ?thesis
    by (simp add: nearest_scaled[OF u] powi2_split mult.commute)
qed


lemma ulp_at:
  assumes "2 powi e \<le> \<bar>x\<bar>" "\<bar>x\<bar> < 2 powi (e + 1)" "- 1022 \<le> e"
  shows "ulp x = 2 powi (e - 52)"
  using expo_unique[OF assms(1,2)] assms(3) by (simp add: ulp_def max_def)

lemma round64_at:
  assumes lo: "2 powi e \<le> x" and hi: "x < 2 powi (e + 1)" and e: "- 1022 \<le> e" "e \<le> 1022"
  shows "round64 x = Fin (of_int (rne (x * 2 powi (52 - e))) * 2 powi (e - 52))"
proof -
  have x: "0 < x" using lo powi2_pos[of e] by linarith
  then have ax: "\<bar>x\<bar> = x" by simp
  have u: "ulp x = 2 powi (e - 52)" using lo hi e(1) by (intro ulp_at) (simp_all add: ax)
  have eq: "e - 52 + 52 = e" "e - 52 + 53 = e + 1" by simp_all
  have "2 powi (e - 52 + 52) \<le> nearest x \<and> nearest x \<le> 2 powi (e - 52 + 53)"
    using lo hi by (intro nearest_between[OF u]) (simp_all only: eq)
  then have "2 powi e \<le> nearest x" "nearest x \<le> 2 powi (e + 1)"
    by (simp_all only: eq)
  then have b: "0 < nearest x" "nearest x \<le> 2 powi (e + 1)"
    using powi2_pos[of e] by linarith+
  have "(2::rat) powi (e + 1) < 2 powi 1024" using e(2) by (simp only: powi2_less_iff)
  with b have "\<not> 2 powi 1024 \<le> nearest x" "\<not> nearest x \<le> - (2 powi 1024)"
    using powi2_pos[of 1024] by linarith+
  then show ?thesis
    by (simp add: round64_nearest nearest_scaled[OF u])
qed

lemma nearest_nonneg:
  assumes "0 \<le> x"
  shows "0 \<le> nearest x"
proof -
  have "0 \<le> x / ulp x" using assms ulp_pos[of x] by simp
  then have "rne (of_int 0) \<le> rne (x / ulp x)" by (intro rne_mono) simp
  then have "0 \<le> rne (x / ulp x)" by (simp only: rne_of_int)
  then show ?thesis using ulp_pos[of x] by (simp add: nearest_def)
qed

lemma expo_mono:
  assumes "0 < x" "x \<le> y"
  shows "expo x \<le> expo y"
proof -
  have "x \<noteq> 0" "y \<noteq> 0" using assms by auto
  from expo_bounds[OF this(1)] expo_bounds[OF this(2)] assms
  have "(2::rat) powi (expo x) < 2 powi (expo y + 1)" by simp
  then have "expo x < expo y + 1" by (simp only: powi2_less_iff)
  then show ?thesis by simp
qed

lemma nearest_mono:
  assumes "0 \<le> x" "x \<le> y"
  shows "nearest x \<le> nearest y"
proof (cases "x = 0")
  case True
  have "nearest 0 = 0" by (simp add: nearest_def rne_def)
  then show ?thesis using True nearest_nonneg[of y] assms by simp
next
  case False
  then have x: "0 < x" and y: "0 < y" using assms by auto
  define kx where "kx = max (expo x) (- 1022) - 52"
  define ky where "ky = max (expo y) (- 1022) - 52"
  have E: "kx \<le> ky" using expo_mono[OF x assms(2)] by (auto simp: kx_def ky_def max_def)
  have ux: "ulp x = 2 powi kx" and uy: "ulp y = 2 powi ky"
    by (simp_all add: ulp_def kx_def ky_def)
  show ?thesis
  proof (cases "kx = ky")
    case True
    then have u: "ulp x = ulp y" by (simp add: ux uy)
    have "x / ulp y \<le> y / ulp y" using assms(2) ulp_pos[of y] by (simp add: divide_right_mono)
    then have "rne (x / ulp y) \<le> rne (y / ulp y)" by (rule rne_mono)
    then have "(of_int (rne (x / ulp y)) :: rat) \<le> of_int (rne (y / ulp y))"
      by (simp only: of_int_le_iff)
    then show ?thesis using ulp_pos[of y] by (simp add: nearest_def u)
  next
    case False
    with E have lt: "kx + 53 \<le> ky + 52" by simp
    then have ey: "ky + 52 = expo y" unfolding kx_def ky_def by linarith
    have ex: "expo x + 1 \<le> kx + 53" unfolding kx_def by linarith
    have bx: "x < 2 powi (expo x + 1)" and by': "2 powi (expo y) \<le> y"
      using expo_bounds[of x] expo_bounds[of y] x y by simp_all
    have "(2::rat) powi (expo x + 1) \<le> 2 powi (kx + 53)" using ex by (simp only: powi2_le_iff)
    with bx have hi: "x \<le> 2 powi (kx + 53)" by linarith
    have 1: "nearest x \<le> 2 powi (kx + 53)"
    proof (cases "2 powi (kx + 0) \<le> x")
      case True
      from nearest_between[OF ux True hi] show ?thesis by simp
    next
      case False
      then have "x \<le> 2 powi kx" by simp
      then have "x / ulp x \<le> of_int 1" using ulp_pos[of x] by (simp add: ux pos_divide_le_eq)
      then have "rne (x / ulp x) \<le> rne (of_int 1)" by (rule rne_mono)
      then have "rne (x / ulp x) \<le> 1" by (simp only: rne_of_int)
      then have "(of_int (rne (x / ulp x)) :: rat) \<le> 1" by simp
      then have "nearest x \<le> ulp x" using ulp_pos[of x]
        by (simp add: nearest_def mult_le_cancel_right1)
      also have "ulp x \<le> 2 powi (kx + 53)"
      proof -
        have "kx \<le> kx + 53" by simp
        then show ?thesis by (simp only: ux powi2_le_iff)
      qed
      finally show ?thesis .
    qed
    have "y < 2 powi (expo y + 1)" using expo_bounds[of y] y by simp
    moreover have "expo y + 1 = ky + 53" using ey by simp
    ultimately have "y \<le> 2 powi (ky + 53)" by simp
    moreover have "2 powi (ky + 52) \<le> y" using by' by (simp only: ey)
    ultimately have 2: "2 powi (ky + 52) \<le> nearest y"
      using nearest_between[OF uy, of 52 53] by simp
    have "(2::rat) powi (kx + 53) \<le> 2 powi (ky + 52)"
      using lt by (simp only: powi2_le_iff)
    with 1 2 show ?thesis by linarith
  qed
qed

lemma round64_mono:
  assumes "0 \<le> x" "x \<le> y"
  shows "jle (round64 x) (round64 y)"
  using nearest_mono[OF assms] nearest_nonneg[OF assms(1)] powi2_pos[of 1024]
  by (auto simp: round64_nearest jle_def)

lemma round64_exact:
  assumes x: "x = of_int m * 2 powi k" and m: "\<bar>m\<bar> < 2 ^ 53" and k: "- 1074 \<le> k"
    and fin: "\<bar>x\<bar> < 2 powi 1024"
  shows "round64 x = Fin x"
proof (cases "x = 0")
  case True
  then show ?thesis by (simp add: round64_def)
next
  case False
  let ?E = "max (expo x) (- 1022) - 52"
  have "\<bar>x\<bar> = of_int \<bar>m\<bar> * 2 powi k" using powi2_pos[of k] by (simp add: x abs_mult)
  moreover have "(of_int \<bar>m\<bar> :: rat) < of_int (2 ^ 53)" using m by (simp only: of_int_less_iff)
  ultimately have "\<bar>x\<bar> < 2 powi 53 * 2 powi k" using powi2_pos[of k] by simp
  then have "\<bar>x\<bar> < 2 powi (53 + k)" by (simp only: powi2_split)
  with expo_bounds[OF False] have "(2::rat) powi (expo x) < 2 powi (53 + k)" by linarith
  then have "expo x < 53 + k" by (simp only: powi2_less_iff)
  with k have E: "?E \<le> k" by simp
  then have "(2::rat) powi (k - ?E) = of_int (2 ^ nat (k - ?E))" by (simp add: power_int_def)
  moreover have "x / ulp x = of_int m * 2 powi (k - ?E)"
    by (simp add: x ulp_def power_int_diff)
  ultimately have "x / ulp x = of_int (m * 2 ^ nat (k - ?E))" by simp
  then have "rne (x / ulp x) = m * 2 ^ nat (k - ?E)" by (simp only: rne_of_int)
  then have "nearest x = x / ulp x * ulp x"
    unfolding nearest_def \<open>x / ulp x = of_int (m * 2 ^ nat (k - ?E))\<close> by simp
  then have "nearest x = x" using ulp_pos[of x] by simp
  then show ?thesis using fin by (auto simp: round64_nearest abs_if split: if_splits)
qed

lemma round64_int:
  assumes "\<bar>n\<bar> < 2 ^ 53"
  shows "round64 (of_int n) = Fin (of_int n)"
proof -
  have "(of_int \<bar>n\<bar> :: rat) < of_int (2 ^ 53)" using assms by (simp only: of_int_less_iff)
  then have "\<bar>of_int n :: rat\<bar> < 2 powi 1024" by simp
  then show ?thesis using assms by (intro round64_exact[of _ n 0]) simp_all
qed

lemma rne_frac:
  assumes "0 < b"
  shows "rne (of_int a / of_int b) =
    (if 2 * (a mod b) < b then a div b else if b < 2 * (a mod b) then a div b + 1
     else if even (a div b) then a div b else a div b + 1)"
proof -
  have f: "\<lfloor>(of_int a / of_int b :: rat)\<rfloor> = a div b" by (simp add: floor_divide_of_int_eq)
  have b: "(0::rat) < of_int b" using assms by simp
  have "(of_int a :: rat) = of_int (a div b * b + a mod b)" by simp
  also have "\<dots> = of_int (a div b) * of_int b + of_int (a mod b)" by (simp only: of_int_add of_int_mult)
  finally have r0: "(of_int a / of_int b :: rat) - of_int (a div b) = of_int (a mod b) / of_int b"
    using b by (simp add: field_simps)
  have "rne (of_int a / of_int b) =
    (if of_int (a mod b) / of_int b < (1 / 2 :: rat) then a div b
     else if (1 / 2 :: rat) < of_int (a mod b) / of_int b then a div b + 1
     else if even (a div b) then a div b else a div b + 1)"
    by (simp only: rne_def Let_def f r0)
  note main = this
  have 1: "(of_int (a mod b) / of_int b < (1 / 2 :: rat)) = (2 * (a mod b) < b)"
  proof -
    have "(of_int (a mod b) / of_int b < (1 / 2 :: rat)) = ((of_int (2 * (a mod b)) :: rat) < of_int b)"
      using b by (simp add: field_simps)
    then show ?thesis by (simp only: of_int_less_iff)
  qed
  have 2: "((1 / 2 :: rat) < of_int (a mod b) / of_int b) = (b < 2 * (a mod b))"
  proof -
    have "((1 / 2 :: rat) < of_int (a mod b) / of_int b) = ((of_int b :: rat) < of_int (2 * (a mod b)))"
      using b by (simp add: field_simps)
    then show ?thesis by (simp only: of_int_less_iff)
  qed
  show ?thesis by (simp only: main 1 2)
qed

lemma rne_numeral_div:
  "rne (numeral a / numeral b) =
    (if 2 * (numeral a mod numeral b) < (numeral b :: int) then numeral a div numeral b
     else if (numeral b :: int) < 2 * (numeral a mod numeral b) then numeral a div numeral b + 1
     else if even (numeral a div numeral b :: int) then numeral a div numeral b
     else numeral a div numeral b + 1)"
  using rne_frac[of "numeral b" "numeral a"] by simp

lemma rne_numeral: "rne (numeral a) = numeral a"
  using rne_of_int[of "numeral a"] by simp

lemmas rne_eval = rne_numeral_div rne_numeral

lemma floor_numeral_div: "\<lfloor>numeral a / numeral b :: rat\<rfloor> = numeral a div numeral b"
  using floor_divide_of_int_eq[of "numeral a" "numeral b", where ?'a = rat] by simp

lemma floor_half: "\<lfloor>1 / 2 :: rat\<rfloor> = 0"
  using floor_divide_of_int_eq[of 1 2, where ?'a = rat] by simp

section \<open>The time-saved estimate: worked examples\<close>

text \<open>
  C4. The upload component's estimate is "1 hr 33 min" for 24 pages and 10 clauses, where
  S is 63, the hours are 1 and the minutes 33, and "1 hr 0 min" for no pages and no
  clauses.
\<close>

theorem calculateTimeSaved_worked_examples:
  "calculateTimeSaved (Fin 24) (Fin 10) = ''1 hr 33 min'' \<and>
   calculateTimeSaved (Fin 0) (Fin 0) = ''1 hr 0 min'' \<and>
   score (Fin 24) (Fin 10) = Fin 63 \<and>
   Math_floor (timeSavedHours (Fin 63)) = Fin 1 \<and>
   Math_round (jmul (jsub (timeSavedHours (Fin 63)) (Fin 1)) (Fin 60)) = Fin 33 \<and>
   timeSavedHours (score (Fin 0) (Fin 0)) = Fin 1"
proof -
  have a1: "jmul (Fin 24) (Fin 2) = Fin 48"
    using round64_at[of 5 "48"] by (simp add: rne_eval)
  have a2: "jmul (Fin 10) (Fin (3 / 2)) = Fin 15"
    using round64_at[of 3 "15"] by (simp add: rne_eval)
  have a3: "jadd (Fin 48) (Fin 15) = Fin 63"
    using round64_at[of 5 "63"] by (simp add: rne_eval)
  have a4: "jadd (Fin 63) (Fin 50) = Fin 113"
    using round64_at[of 6 "113"] by (simp add: rne_eval)
  have a5: "jdiv (Fin 63) (Fin 113) = Fin (2510856429418949 / 4503599627370496)"
    using round64_at[of "- 1" "63 / 113"] by (simp add: rne_eval)
  have a6: "jadd (Fin 1) (Fin (2510856429418949 / 4503599627370496)) =
      Fin (7014456056789445 / 4503599627370496)"
    using round64_at[of 0 "7014456056789445 / 4503599627370496"] by (simp add: rne_eval)
  have a7: "Math_floor (Fin (7014456056789445 / 4503599627370496)) =
      Fin 1"
    by (simp add: floor_numeral_div floor_half)
  have a8: "jsub (Fin (7014456056789445 / 4503599627370496)) (Fin 1) =
      Fin (2510856429418949 / 4503599627370496)"
    using round64_at[of "- 1" "2510856429418949 / 4503599627370496"] by (simp add: rne_eval jsub_def)
  have a9: "jmul (Fin (2510856429418949 / 4503599627370496)) (Fin 60) =
      Fin (4707855805160529 / 140737488355328)"
    using round64_at[of 5 "37662846441284235 / 1125899906842624"] by (simp add: rne_eval)
  have a10: "Math_round (Fin (4707855805160529 / 140737488355328)) =
      Fin 33"
    by (simp add: floor_numeral_div floor_half)
  have z1: "jmul (Fin 0) (Fin 2) = Fin 0" by (simp add: round64_def)
  have z2: "jmul (Fin 0) (Fin (3 / 2)) = Fin 0" by (simp add: round64_def)
  have z3: "jadd (Fin 0) (Fin 0) = Fin 0" by (simp add: round64_def)
  have z4: "jadd (Fin 0) (Fin 50) = Fin 50"
    using round64_at[of 5 "50"] by (simp add: rne_eval)
  have z5: "jdiv (Fin 0) (Fin 50) = Fin 0" by (simp add: round64_def)
  have z6: "jadd (Fin 1) (Fin 0) = Fin 1"
    using round64_at[of 0 "1"] by (simp add: rne_eval)
  have z7: "Math_floor (Fin 1) = Fin 1" by (simp add: floor_numeral_div floor_half)
  have z8: "jsub (Fin 1) (Fin 1) = Fin 0" by (simp add: round64_def jsub_def)
  have z9: "jmul (Fin 0) (Fin 60) = Fin 0" by (simp add: round64_def)
  have z10: "Math_round (Fin 0) = Fin 0" by (simp add: floor_numeral_div floor_half)
  have A: "calculateTimeSaved (Fin 24) (Fin 10) =
      NumberToString (Fin 1) @ '' hr '' @ NumberToString (Fin 33) @ '' min''"
    by (simp only: calculateTimeSaved_def Let_def a1 a2 a3 a4 a5 a6 a7 a8 a9 a10)
  have Z: "calculateTimeSaved (Fin 0) (Fin 0) =
      NumberToString (Fin 1) @ '' hr '' @ NumberToString (Fin 0) @ '' min''"
    by (simp only: calculateTimeSaved_def Let_def z1 z2 z3 z4 z5 z6 z7 z8 z9 z10)
  have S: "score (Fin 24) (Fin 10) = Fin 63" by (simp only: score_def a1 a2 a3)
  have T: "timeSavedHours (Fin 63) = Fin (7014456056789445 / 4503599627370496)"
    by (simp only: timeSavedHours_def a4 a5 a6)
  have T0: "timeSavedHours (score (Fin 0) (Fin 0)) = Fin 1"
    by (simp only: score_def timeSavedHours_def z1 z2 z3 z4 z5 z6)
  have n1: "NumberToString (Fin 1) = ''1''" "NumberToString (Fin 0) = ''0''"
    "NumberToString (Fin 33) = ''33''"
    by (simp_all add: string_of_nat.simps digit_char_def)
  show ?thesis
    unfolding A Z S T T0 a7 a8 a9 a10 n1 by simp
qed

text \<open>
  C10. For 25000 pages and no clauses S is 50000, the hours are 1 and the minutes round
  to 60: the estimate is "1 hr 60 min".
\<close>

theorem calculateTimeSaved_sixty_minutes:
  "calculateTimeSaved (Fin 25000) (Fin 0) = ''1 hr 60 min'' \<and>
   score (Fin 25000) (Fin 0) = Fin 50000 \<and>
   Math_floor (timeSavedHours (Fin 50000)) = Fin 1 \<and>
   Math_round (jmul (jsub (timeSavedHours (Fin 50000)) (Fin 1)) (Fin 60)) = Fin 60"
proof -
  have a1: "jmul (Fin 25000) (Fin 2) = Fin 50000"
    using round64_at[of 15 "50000"] by (simp add: rne_eval)
  have a2: "jmul (Fin 0) (Fin (3 / 2)) = Fin 0" by (simp add: round64_def)
  have a3: "jadd (Fin 50000) (Fin 0) = Fin 50000"
    using round64_at[of 15 "50000"] by (simp add: rne_eval)
  have a4: "jadd (Fin 50000) (Fin 50) = Fin 50050"
    using round64_at[of 15 "50050"] by (simp add: rne_eval)
  have a5: "jdiv (Fin 50000) (Fin 50050) = Fin (8998201053687305 / 9007199254740992)"
    using round64_at[of "- 1" "1000 / 1001"] by (simp add: rne_eval)
  have a6: "jadd (Fin 1) (Fin (8998201053687305 / 9007199254740992)) =
      Fin (2250675038553537 / 1125899906842624)"
    using round64_at[of 0 "18005400308428297 / 9007199254740992"] by (simp add: rne_eval)
  have a7: "Math_floor (Fin (2250675038553537 / 1125899906842624)) =
      Fin 1"
    by (simp add: floor_numeral_div floor_half)
  have a8: "jsub (Fin (2250675038553537 / 1125899906842624)) (Fin 1) =
      Fin (1124775131710913 / 1125899906842624)"
    using round64_at[of "- 1" "1124775131710913 / 1125899906842624"] by (simp add: rne_eval jsub_def)
  have a9: "jmul (Fin (1124775131710913 / 1125899906842624)) (Fin 60) =
      Fin (1054476685978981 / 17592186044416)"
    using round64_at[of 5 "16871626975663695 / 281474976710656"] by (simp add: rne_eval)
  have a10: "Math_round (Fin (1054476685978981 / 17592186044416)) =
      Fin 60"
    by (simp add: floor_numeral_div floor_half)
  have A: "calculateTimeSaved (Fin 25000) (Fin 0) =
      NumberToString (Fin 1) @ '' hr '' @ NumberToString (Fin 60) @ '' min''"
    by (simp only: calculateTimeSaved_def Let_def a1 a2 a3 a4 a5 a6 a7 a8 a9 a10)
  have S: "score (Fin 25000) (Fin 0) = Fin 50000" by (simp only: score_def a1 a2 a3)
  have T: "timeSavedHours (Fin 50000) = Fin (2250675038553537 / 1125899906842624)"
    by (simp only: timeSavedHours_def a4 a5 a6)
  have n: "NumberToString (Fin 1) = ''1''" "NumberToString (Fin 60) = ''60''"
    by (simp_all add: string_of_nat.simps digit_char_def)
  show ?thesis
    unfolding A S T a7 a8 a9 a10 n by simp
qed

section \<open>The two copies of the estimate\<close>

text \<open>
  C9. The Dashboard's copy of \<open>calculateTimeSaved\<close> returns the same string as the upload
  component's for every pair of arguments, and both are the formula of the specification.
\<close>

theorem calculateTimeSaved_Dashboard_agrees:
  "calculateTimeSaved_Dashboard pages clauses = calculateTimeSaved pages clauses \<and>
   calculateTimeSaved pages clauses = estimate pages clauses"
  by (simp add: calculateTimeSaved_Dashboard_def calculateTimeSaved_def estimate_def
      score_def timeSavedHours_def)

section \<open>Range and order of timeSavedHours\<close>

lemma is_double_nearest:
  assumes "is_double x"
  shows "nearest x = x" "x < 2 powi 1024"
  using assms unfolding is_double_def round64_nearest
  by (auto split: if_splits)

lemma is_doubleI:
  assumes "x = of_int m * 2 powi k" "\<bar>m\<bar> < 2 ^ 53" "- 1074 \<le> k" "\<bar>x\<bar> < 2 powi 1024"
  shows "is_double x"
  unfolding is_double_def using assms by (rule round64_exact)

lemma round64_between:
  assumes a: "is_double a" "0 \<le> a" and b: "is_double b" and x: "a \<le> x" "x \<le> b"
  shows "round64 x = Fin (nearest x)" "a \<le> nearest x" "nearest x \<le> b"
proof -
  have 1: "nearest a \<le> nearest x" using a(2) x(1) by (rule nearest_mono)
  have 2: "nearest x \<le> nearest b" using a(2) x by (intro nearest_mono) auto
  show lo: "a \<le> nearest x" using 1 is_double_nearest(1)[OF a(1)] by simp
  show hi: "nearest x \<le> b" using 2 is_double_nearest(1)[OF b] by simp
  have "nearest x < 2 powi 1024" using hi is_double_nearest(2)[OF b] by simp
  moreover have "- (2 powi 1024) < nearest x" using lo a(2) powi2_pos[of 1024] by linarith
  ultimately show "round64 x = Fin (nearest x)" by (simp add: round64_nearest)
qed

lemma is_double_small:
  "is_double 0" "is_double 1" "is_double 2" "is_double 50"
  "is_double (1 - 1 / 2 ^ 47)" "is_double (2 - 1 / 2 ^ 47)"
proof -
  show "is_double 0" by (simp add: is_double_def round64_def)
  show "is_double 1" using round64_int[of 1] by (simp add: is_double_def)
  show "is_double 2" using round64_int[of 2] by (simp add: is_double_def)
  show "is_double 50" using round64_int[of 50] by (simp add: is_double_def)
  show "is_double (1 - 1 / 2 ^ 47)"
    by (rule is_doubleI[of _ "2 ^ 47 - 1" "- 47"]) simp_all
  show "is_double (2 - 1 / 2 ^ 47)"
    by (rule is_doubleI[of _ "2 ^ 48 - 1" "- 47"]) simp_all
qed


lemma timeSavedHours_range:
  assumes S: "is_double S" "0 \<le> S"
  shows "\<exists>t. timeSavedHours (Fin S) = Fin t \<and> 1 \<le> t \<and> t \<le> 2"
proof -
  have one: "round64 1 = Fin 1" using is_double_small(2) by (simp add: is_double_def)
  have n50: "50 \<le> nearest (S + 50)"
    using nearest_mono[of 50 "S + 50"] S(2) is_double_nearest(1)[OF is_double_small(4)] by simp
  have nS: "S \<le> nearest (S + 50)"
    using nearest_mono[of S "S + 50"] S(2) is_double_nearest(1)[OF S(1)] by simp
  show ?thesis
  proof (cases "2 powi 1024 \<le> nearest (S + 50)")
    case True
    then have "jadd (Fin S) (Fin 50) = PosInf" by (simp add: round64_nearest)
    then have "timeSavedHours (Fin S) = jadd (Fin 1) (jdiv (Fin S) PosInf)"
      by (simp only: timeSavedHours_def)
    then have "timeSavedHours (Fin S) = Fin 1" by (simp add: one)
    then show ?thesis by simp
  next
    case False
    define d where "d = nearest (S + 50)"
    have d: "50 \<le> d" "S \<le> d" using n50 nS by (simp_all add: d_def)
    have "\<not> d \<le> - (2 powi 1024)" using d(1) powi2_pos[of 1024] by linarith
    then have D: "round64 (S + 50) = Fin d" using False by (simp add: round64_nearest d_def)
    have q01: "0 \<le> S / d" "S / d \<le> 1" using d S(2) by simp_all
    define q where "q = nearest (S / d)"
    from round64_between[OF is_double_small(1) _ is_double_small(2) q01]
    have q: "round64 (S / d) = Fin q" "0 \<le> q" "q \<le> 1" by (simp_all add: q_def)
    have Q: "jdiv (Fin S) (Fin d) = Fin q" using d(1) q(1) by simp
    have t12: "1 \<le> 1 + q" "1 + q \<le> 2" using q by simp_all
    from round64_between[OF is_double_small(2) _ is_double_small(3) t12]
    have "round64 (1 + q) = Fin (nearest (1 + q))" "1 \<le> nearest (1 + q)" "nearest (1 + q) \<le> 2"
      by simp_all
    moreover have "timeSavedHours (Fin S) = round64 (1 + q)"
    proof -
      have "timeSavedHours (Fin S) = jadd (Fin 1) (jdiv (Fin S) (Fin d))"
        by (simp only: timeSavedHours_def jadd.simps D)
      then show ?thesis by (simp only: Q jadd.simps)
    qed
    ultimately show ?thesis by simp
  qed
qed

lemma half_is_double:
  assumes "n < 2 ^ 53"
  shows "is_double (of_nat n / 2)"
proof (rule is_doubleI[of _ "int n" "- 1"])
  show "(of_nat n / 2 :: rat) = of_int (int n) * 2 powi (- 1)" by (simp add: power_int_minus)
  show "\<bar>int n\<bar> < 2 ^ 53" using assms by simp
  show "(- 1074 :: int) \<le> - 1" by simp
  have "(of_nat n :: rat) < of_nat (2 ^ 53)" using assms by (simp only: of_nat_less_iff)
  then show "\<bar>of_nat n / 2 :: rat\<bar> < 2 powi 1024" by simp
qed

lemma ratio_le:
  assumes "m \<le> n"
  shows "(of_nat m / of_nat (m + 100) :: rat) \<le> of_nat n / of_nat (n + 100)"
proof -
  have "m * (n + 100) \<le> n * (m + 100)" using assms by (simp add: algebra_simps)
  then have "(of_nat (m * (n + 100)) :: rat) \<le> of_nat (n * (m + 100))" by (simp only: of_nat_le_iff)
  then show ?thesis by (simp add: field_simps)
qed

lemma ratio_bound:
  assumes "n + 100 < 2 ^ 53"
  shows "(of_nat n / of_nat (n + 100) :: rat) \<le> 1 - 1 / 2 ^ 47"
proof -
  have "(of_nat (n + 100) :: rat) < of_nat (2 ^ 53)" using assms by (simp only: of_nat_less_iff)
  then have "(of_nat n :: rat) + 100 < 2 ^ 53" by simp
  then show ?thesis by (simp add: field_simps)
qed

lemma timeSavedHours_half:
  assumes n: "n + 100 < 2 ^ 53"
  shows "timeSavedHours (Fin (of_nat n / 2)) = Fin (tsh_half n)"
    and "1 \<le> tsh_half n" and "tsh_half n \<le> 2 - 1 / 2 ^ 47"
proof -
  let ?r = "of_nat n / of_nat (n + 100) :: rat"
  have "is_double (of_nat (n + 100) / 2)" using n by (intro half_is_double) simp
  then have "round64 (of_nat (n + 100) / 2) = Fin (of_nat (n + 100) / 2)"
    unfolding is_double_def .
  moreover have "(of_nat n / 2 + 50 :: rat) = of_nat (n + 100) / 2" by simp
  ultimately have D: "round64 (of_nat n / 2 + 50) = Fin (of_nat (n + 100) / 2)"
    by (simp only:)
  have r: "(of_nat n / 2) / (of_nat (n + 100) / 2) = ?r" by simp
  have r0: "0 \<le> ?r" by simp
  from round64_between[OF is_double_small(1) _ is_double_small(5) r0 ratio_bound[OF n]]
  have q: "round64 ?r = Fin (nearest ?r)" "0 \<le> nearest ?r" "nearest ?r \<le> 1 - 1 / 2 ^ 47"
    by simp_all
  have nz: "(of_nat (n + 100) / 2 :: rat) \<noteq> 0" by simp
  have Q: "jdiv (Fin (of_nat n / 2)) (Fin (of_nat (n + 100) / 2)) = Fin (nearest ?r)"
    by (simp only: jdiv.simps nz if_False r q(1))
  have t: "1 \<le> 1 + nearest ?r" "1 + nearest ?r \<le> 2 - 1 / 2 ^ 47" using q(2,3) by simp_all
  from round64_between[OF is_double_small(2) _ is_double_small(6) t]
  have T: "round64 (1 + nearest ?r) = Fin (tsh_half n)" "1 \<le> tsh_half n"
    "tsh_half n \<le> 2 - 1 / 2 ^ 47"
    by (simp_all add: tsh_half_def)
  have "timeSavedHours (Fin (of_nat n / 2)) =
      jadd (Fin 1) (jdiv (Fin (of_nat n / 2)) (Fin (of_nat (n + 100) / 2)))"
    by (simp only: timeSavedHours_def jadd.simps D)
  then show "timeSavedHours (Fin (of_nat n / 2)) = Fin (tsh_half n)"
    by (simp only: Q jadd.simps T(1))
  show "1 \<le> tsh_half n" "tsh_half n \<le> 2 - 1 / 2 ^ 47" by (rule T)+
qed

lemma tsh_half_mono:
  assumes "m \<le> n"
  shows "tsh_half m \<le> tsh_half n"
proof -
  have "nearest (of_nat m / of_nat (m + 100)) \<le> nearest (of_nat n / of_nat (n + 100))"
    using ratio_le[OF assms] by (intro nearest_mono) simp_all
  moreover have "0 \<le> nearest (of_nat m / of_nat (m + 100))" by (intro nearest_nonneg) simp
  ultimately show ?thesis unfolding tsh_half_def by (intro nearest_mono) simp_all
qed

lemma score_nat:
  assumes "4 * p + 3 * c < 2 ^ 53"
  shows "score (Fin (of_nat p)) (Fin (of_nat c)) = Fin (of_nat (4 * p + 3 * c) / 2)"
proof -
  have e1: "(of_nat (4 * p) / 2 :: rat) = of_nat p * 2" by simp
  have e2: "(of_nat (3 * c) / 2 :: rat) = of_nat c * (3 / 2)" by simp
  have e3: "(of_nat p * 2 + of_nat c * (3 / 2) :: rat) = of_nat (4 * p + 3 * c) / 2" by simp
  have "is_double (of_nat (4 * p) / 2)" using assms by (intro half_is_double) simp
  then have 1: "round64 (of_nat p * 2) = Fin (of_nat p * 2)" unfolding is_double_def e1 .
  have "is_double (of_nat (3 * c) / 2)" using assms by (intro half_is_double) simp
  then have 2: "round64 (of_nat c * (3 / 2)) = Fin (of_nat c * (3 / 2))"
    unfolding is_double_def e2 .
  have "is_double (of_nat (4 * p + 3 * c) / 2)" using assms by (rule half_is_double)
  then have 3: "round64 (of_nat (4 * p + 3 * c) / 2) = Fin (of_nat (4 * p + 3 * c) / 2)"
    unfolding is_double_def .
  show ?thesis by (simp only: score_def jmul.simps jadd.simps 1 2 e3 3)
qed

text \<open>
  C5, as stated, fails on binary64 numbers. At \<open>10 ^ 18\<close> pages the sum \<open>S + 50\<close> rounds
  to \<open>S\<close> and timeSavedHours is exactly 2; and from 9007199254740969 to 9007199254740970
  pages (no clauses) timeSavedHours goes down by one unit in the last place.
\<close>

theorem timeSavedHours_counterexample:
  "timeSavedHours (score (Fin 1000000000000000000) (Fin 0)) = Fin 2 \<and>
   jless (timeSavedHours (score (Fin 9007199254740970) (Fin 0)))
         (timeSavedHours (score (Fin 9007199254740969) (Fin 0)))"
proof -
  have b1: "jmul (Fin 1000000000000000000) (Fin 2) = Fin 2000000000000000000"
    using round64_at[of 60 "2000000000000000000"] by (simp add: rne_eval)
  have b2: "jmul (Fin 0) (Fin (3 / 2)) = Fin 0" by (simp add: round64_def)
  have b3: "jadd (Fin 2000000000000000000) (Fin 0) = Fin 2000000000000000000"
    using round64_at[of 60 "2000000000000000000"] by (simp add: rne_eval)
  have b4: "jadd (Fin 2000000000000000000) (Fin 50) = Fin 2000000000000000000"
    using round64_at[of 60 "2000000000000000050"] by (simp add: rne_eval)
  have b5: "jdiv (Fin 2000000000000000000) (Fin 2000000000000000000) = Fin 1"
    using round64_at[of 0 "1"] by (simp add: rne_eval)
  have b6: "jadd (Fin 1) (Fin 1) = Fin 2"
    using round64_at[of 1 "2"] by (simp add: rne_eval)
  have m1: "jmul (Fin 9007199254740969) (Fin 2) = Fin 18014398509481938"
    using round64_at[of 53 "18014398509481938"] by (simp add: rne_eval)
  have m2: "jmul (Fin 0) (Fin (3 / 2)) = Fin 0" by (simp add: round64_def)
  have m3: "jadd (Fin 18014398509481938) (Fin 0) = Fin 18014398509481938"
    using round64_at[of 53 "18014398509481938"] by (simp add: rne_eval)
  have m4: "jadd (Fin 18014398509481938) (Fin 50) = Fin 18014398509481988"
    using round64_at[of 54 "18014398509481988"] by (simp add: rne_eval)
  have m5: "jdiv (Fin 18014398509481938) (Fin 18014398509481988) =
      Fin (9007199254740967 / 9007199254740992)"
    using round64_at[of "- 1" "9007199254740969 / 9007199254740994"] by (simp add: rne_eval)
  have m6: "jadd (Fin 1) (Fin (9007199254740967 / 9007199254740992)) =
      Fin (2251799813685245 / 1125899906842624)"
    using round64_at[of 0 "18014398509481959 / 9007199254740992"] by (simp add: rne_eval)
  have n1: "jmul (Fin 9007199254740970) (Fin 2) = Fin 18014398509481940"
    using round64_at[of 53 "18014398509481940"] by (simp add: rne_eval)
  have n2: "jmul (Fin 0) (Fin (3 / 2)) = Fin 0" by (simp add: round64_def)
  have n3: "jadd (Fin 18014398509481940) (Fin 0) = Fin 18014398509481940"
    using round64_at[of 53 "18014398509481940"] by (simp add: rne_eval)
  have n4: "jadd (Fin 18014398509481940) (Fin 50) = Fin 18014398509481992"
    using round64_at[of 54 "18014398509481990"] by (simp add: rne_eval)
  have n5: "jdiv (Fin 18014398509481940) (Fin 18014398509481992) =
      Fin (4503599627370483 / 4503599627370496)"
    using round64_at[of "- 1" "4503599627370485 / 4503599627370498"] by (simp add: rne_eval)
  have n6: "jadd (Fin 1) (Fin (4503599627370483 / 4503599627370496)) =
      Fin (9007199254740979 / 4503599627370496)"
    using round64_at[of 0 "9007199254740979 / 4503599627370496"] by (simp add: rne_eval)
  have B: "timeSavedHours (score (Fin 1000000000000000000) (Fin 0)) = Fin 2"
    by (simp only: score_def timeSavedHours_def b1 b2 b3 b4 b5 b6)
  have M: "timeSavedHours (score (Fin 9007199254740969) (Fin 0)) =
      Fin (2251799813685245 / 1125899906842624)"
    by (simp only: score_def timeSavedHours_def m1 m2 m3 m4 m5 m6)
  have N: "timeSavedHours (score (Fin 9007199254740970) (Fin 0)) =
      Fin (9007199254740979 / 4503599627370496)"
    by (simp only: score_def timeSavedHours_def n1 n2 n3 n4 n5 n6)
  show ?thesis unfolding B M N by simp
qed

text \<open>
  C5, amended. For every finite binary64 \<open>S \<ge> 0\<close> timeSavedHours lies in \<open>[1, 2]\<close>. For
  \<open>S\<close> a multiple of 0.5 with \<open>2 S + 100 < 2 ^ 53\<close> it stays below 2 and does not
  decrease when \<open>S\<close> grows. Integer page and clause counts up to \<open>10 ^ 15\<close> give such
  an \<open>S\<close>, computed without rounding, so more pages never give fewer hours there.
\<close>

theorem timeSavedHours_bounded_monotone:
  assumes "is_double S" "0 \<le> S"
    and "m \<le> n" "n + 100 < 2 ^ 53"
    and "p \<le> p'" "p' \<le> 10 ^ 15" "c \<le> 10 ^ 15"
  shows "jle (Fin 1) (timeSavedHours (Fin S)) \<and> jle (timeSavedHours (Fin S)) (Fin 2) \<and>
    jle (Fin 1) (timeSavedHours (Fin (of_nat n / 2))) \<and>
    jless (timeSavedHours (Fin (of_nat n / 2))) (Fin 2) \<and>
    jle (timeSavedHours (Fin (of_nat m / 2))) (timeSavedHours (Fin (of_nat n / 2))) \<and>
    score (Fin (of_nat p)) (Fin (of_nat c)) = Fin (of_nat (4 * p + 3 * c) / 2) \<and>
    jle (timeSavedHours (score (Fin (of_nat p)) (Fin (of_nat c))))
        (timeSavedHours (score (Fin (of_nat p')) (Fin (of_nat c)))) \<and>
    jless (timeSavedHours (score (Fin (of_nat p')) (Fin (of_nat c)))) (Fin 2)"
proof -
  from timeSavedHours_range[OF assms(1,2)]
  have A: "jle (Fin 1) (timeSavedHours (Fin S)) \<and> jle (timeSavedHours (Fin S)) (Fin 2)"
    by (auto simp: jle_def)
  have m: "m + 100 < 2 ^ 53" using assms(3,4) by simp
  note tn = timeSavedHours_half[OF assms(4)] and tm = timeSavedHours_half[OF m]
  have "(2 - 1 / 2 ^ 47 :: rat) < 2" by simp
  with tn(3) have lt: "tsh_half n < 2" by linarith
  have B: "jle (Fin 1) (timeSavedHours (Fin (of_nat n / 2))) \<and>
    jless (timeSavedHours (Fin (of_nat n / 2))) (Fin 2) \<and>
    jle (timeSavedHours (Fin (of_nat m / 2))) (timeSavedHours (Fin (of_nat n / 2)))"
    using tn(2) lt tsh_half_mono[OF assms(3)] by (simp add: tn(1) tm(1) jle_def)
  let ?a = "4 * p + 3 * c" and ?b = "4 * p' + 3 * c"
  have "(10::nat) ^ 15 * 7 + 100 < 2 ^ 53" by simp
  moreover have "?b \<le> 10 ^ 15 * 7" using assms(6,7) by simp
  ultimately have b: "?b + 100 < 2 ^ 53" by linarith
  have ab: "?a \<le> ?b" using assms(5) by simp
  then have a: "?a + 100 < 2 ^ 53" using b by linarith
  have sa: "score (Fin (of_nat p)) (Fin (of_nat c)) = Fin (of_nat ?a / 2)"
    using a by (intro score_nat) simp
  have sb: "score (Fin (of_nat p')) (Fin (of_nat c)) = Fin (of_nat ?b / 2)"
    using b by (intro score_nat) simp
  note ta = timeSavedHours_half[OF a] and tb = timeSavedHours_half[OF b]
  have "(2 - 1 / 2 ^ 47 :: rat) < 2" by simp
  with tb(3) have ltb: "tsh_half ?b < 2" by linarith
  have C: "jle (timeSavedHours (score (Fin (of_nat p)) (Fin (of_nat c))))
        (timeSavedHours (score (Fin (of_nat p')) (Fin (of_nat c)))) \<and>
    jless (timeSavedHours (score (Fin (of_nat p')) (Fin (of_nat c)))) (Fin 2)"
    using tsh_half_mono[OF ab] ltb unfolding sa sb ta(1) tb(1) by (simp add: jle_def)
  show ?thesis using A B sa C by blast
qed

theorem timeSavedHours_bounded_monotone_witness:
  "is_double 63 \<and> (0::rat) \<le> 63 \<and> (126::nat) \<le> 128 \<and> (128::nat) + 100 < 2 ^ 53 \<and>
   (24::nat) \<le> 25 \<and> (25::nat) \<le> 10 ^ 15 \<and> (10::nat) \<le> 10 ^ 15 \<and>
   jle (Fin 1) (timeSavedHours (Fin 63)) \<and> jle (timeSavedHours (Fin 63)) (Fin 2) \<and>
   jless (timeSavedHours (Fin (of_nat (128::nat) / 2))) (Fin 2) \<and>
   jle (timeSavedHours (Fin (of_nat (126::nat) / 2))) (timeSavedHours (Fin (of_nat (128::nat) / 2))) \<and>
   jle (timeSavedHours (score (Fin (of_nat (24::nat))) (Fin (of_nat (10::nat)))))
       (timeSavedHours (score (Fin (of_nat (25::nat))) (Fin (of_nat (10::nat)))))"
proof -
  have h1: "is_double 63" using round64_int[of 63] by (simp add: is_double_def)
  have h2: "(0::rat) \<le> 63" by simp
  have h3: "(126::nat) \<le> 128" by simp
  have h4: "(128::nat) + 100 < 2 ^ 53" by simp
  have h5: "(24::nat) \<le> 25" by simp
  have h6: "(25::nat) \<le> 10 ^ 15" by simp
  have h7: "(10::nat) \<le> 10 ^ 15" by simp
  from timeSavedHours_bounded_monotone[OF h1 h2 h3 h4 h5 h6 h7] h1 h2 h3 h4 h5 h6 h7
  show ?thesis by blast
qed

section \<open>Counts, buckets and defaults of processResponseData\<close>

lemma risk_data_processResponseData:
  "risk_data (processResponseData r f now) =
     riskDataOf (summaryCount rs_high_risk_clauses r) (summaryCount rs_medium_risk_clauses r)
       (summaryCount rs_low_risk_clauses r) (clauseAssessmentsOf r)"
  by (simp add: processResponseData_def Let_def summaryCount_def summaryOf_def
      clauseAssessmentsOf_def emptyAssessment_def split: option.splits)

lemma rd_value_riskBucket:
  "rd_value (riskBucket name color level fallback r cs) = countLevel level cs"
  "rd_name (riskBucket name color level fallback r cs) = name"
  by (simp_all add: riskBucket_def countLevel_def clausesList_def Let_def)

lemma countLevel_sum_le:
  "countLevel ''high'' cs + countLevel ''medium'' cs + countLevel ''low'' cs \<le> length cs"
  by (induction cs) (auto simp: countLevel_def)

lemma countLevel_sum_eq:
  "list_all knownLevel cs \<Longrightarrow>
   countLevel ''high'' cs + countLevel ''medium'' cs + countLevel ''low'' cs = length cs"
  by (induction cs) (auto simp: countLevel_def knownLevel_def)

text \<open>
  C1, as stated, fails: for the payload with one high-risk clause assessment and no risk
  summary the aggregation has no bucket at all.
\<close>

theorem aggregation_totals_counterexample:
  "countLevel ''high'' (clauseAssessmentsOf payload_one_high_clause) = 1 \<and>
   risk_data (processResponseData payload_one_high_clause ''contract.pdf'' ''now'') = []"
  by (simp add: risk_data_processResponseData riskDataOf_def summaryCount_def summaryOf_def
      num_or_def emptySummary_def clauseAssessmentsOf_def countLevel_def
      payload_one_high_clause_def payload_empty_def emptyAssessment_def clauseOf_def)

text \<open>
  C1, amended. A level has a bucket exactly when the count that the risk summary reports
  for it is positive; the value of that bucket is the number of clause assessments of that
  level. The three numbers add up to at most the number of clause assessments, and to
  exactly that number when every assessment has one of the three levels.
\<close>

theorem aggregation_totals:
  "map rd_value (bucketsNamed ''High'' (risk_data (processResponseData r f now))) =
     (if jless (Fin 0) (summaryCount rs_high_risk_clauses r)
      then [countLevel ''high'' (clauseAssessmentsOf r)] else []) \<and>
   map rd_value (bucketsNamed ''Medium'' (risk_data (processResponseData r f now))) =
     (if jless (Fin 0) (summaryCount rs_medium_risk_clauses r)
      then [countLevel ''medium'' (clauseAssessmentsOf r)] else []) \<and>
   map rd_value (bucketsNamed ''Low'' (risk_data (processResponseData r f now))) =
     (if jless (Fin 0) (summaryCount rs_low_risk_clauses r)
      then [countLevel ''low'' (clauseAssessmentsOf r)] else []) \<and>
   countLevel ''high'' (clauseAssessmentsOf r) + countLevel ''medium'' (clauseAssessmentsOf r) +
     countLevel ''low'' (clauseAssessmentsOf r) \<le> length (clauseAssessmentsOf r) \<and>
   (list_all knownLevel (clauseAssessmentsOf r) \<longrightarrow>
     countLevel ''high'' (clauseAssessmentsOf r) + countLevel ''medium'' (clauseAssessmentsOf r) +
       countLevel ''low'' (clauseAssessmentsOf r) = length (clauseAssessmentsOf r))"
  using countLevel_sum_le[of "clauseAssessmentsOf r"] countLevel_sum_eq[of "clauseAssessmentsOf r"]
  by (simp add: risk_data_processResponseData riskDataOf_def bucketsNamed_def rd_value_riskBucket)


lemma payload_consistent_parts:
  "clauseAssessmentsOf payload_consistent =
     [clauseOf ''high'' ''No notice period'', clauseOf ''medium'' [],
      clauseOf ''high'' ''Unlimited liability'', clauseOf ''low'' ''Standard'']"
  "summaryCount rs_high_risk_clauses payload_consistent = Fin 2"
  "summaryCount rs_medium_risk_clauses payload_consistent = Fin 1"
  "summaryCount rs_low_risk_clauses payload_consistent = Fin 1"
  "summaryCount rs_total_clauses_assessed payload_consistent = Fin 4"
  by (simp_all add: payload_consistent_def clauseAssessmentsOf_def summaryCount_def
      summaryOf_def num_or_def)

theorem aggregation_totals_witness:
  "list_all knownLevel (clauseAssessmentsOf payload_consistent) \<and>
   countLevel ''high'' (clauseAssessmentsOf payload_consistent) +
     countLevel ''medium'' (clauseAssessmentsOf payload_consistent) +
     countLevel ''low'' (clauseAssessmentsOf payload_consistent) =
     length (clauseAssessmentsOf payload_consistent) \<and>
   length (clauseAssessmentsOf payload_consistent) = 4 \<and>
   map rd_value (bucketsNamed ''High''
     (risk_data (processResponseData payload_consistent ''lease.pdf'' ''now''))) = [2] \<and>
   map rd_value (bucketsNamed ''Medium''
     (risk_data (processResponseData payload_consistent ''lease.pdf'' ''now''))) = [1] \<and>
   map rd_value (bucketsNamed ''Low''
     (risk_data (processResponseData payload_consistent ''lease.pdf'' ''now''))) = [1]"
proof -
  have h: "list_all knownLevel (clauseAssessmentsOf payload_consistent)"
    by (simp add: payload_consistent_parts knownLevel_def clauseOf_def)
  note t = aggregation_totals[of payload_consistent "''lease.pdf''" "''now''"]
  have c: "countLevel ''high'' (clauseAssessmentsOf payload_consistent) +
     countLevel ''medium'' (clauseAssessmentsOf payload_consistent) +
     countLevel ''low'' (clauseAssessmentsOf payload_consistent) =
     length (clauseAssessmentsOf payload_consistent)"
    using t h by blast
  have n: "countLevel ''high'' (clauseAssessmentsOf payload_consistent) = 2"
    "countLevel ''medium'' (clauseAssessmentsOf payload_consistent) = 1"
    "countLevel ''low'' (clauseAssessmentsOf payload_consistent) = 1"
    "length (clauseAssessmentsOf payload_consistent) = 4"
    by (simp_all add: payload_consistent_parts countLevel_def clauseOf_def)
  have b: "map rd_value (bucketsNamed ''High''
       (risk_data (processResponseData payload_consistent ''lease.pdf'' ''now''))) = [2]"
    "map rd_value (bucketsNamed ''Medium''
       (risk_data (processResponseData payload_consistent ''lease.pdf'' ''now''))) = [1]"
    "map rd_value (bucketsNamed ''Low''
       (risk_data (processResponseData payload_consistent ''lease.pdf'' ''now''))) = [1]"
    using t by (simp_all add: payload_consistent_parts(2-4) n)
  show ?thesis using h c n(4) b by blast
qed

text \<open>
  C2, as stated, fails: for the empty payload the aggregation is the empty sequence, not
  three buckets of value 0.
\<close>

theorem three_buckets_counterexample:
  "clauseAssessmentsOf payload_empty = [] \<and>
   risk_data (processResponseData payload_empty ''contract.pdf'' ''now'') = []"
  by (simp add: risk_data_processResponseData riskDataOf_def summaryCount_def summaryOf_def
      num_or_def emptySummary_def clauseAssessmentsOf_def payload_empty_def)

lemma impactsOf_Nil: "impactsOf level fallback r [] = []"
  by (simp add: impactsOf_def)

lemma riskDataOf_Nil:
  "list_all (\<lambda>b. rd_value b = 0 \<and> rd_impacts b = []) (riskDataOf H M L [])"
  by (simp add: riskDataOf_def riskBucket_def clausesList_def impactsOf_Nil)

lemma findImpacts_all_empty:
  "list_all (\<lambda>b. rd_value b = 0 \<and> rd_impacts b = []) bs \<Longrightarrow> findImpacts n bs = []"
  by (induction bs) (auto simp: findImpacts_def)

lemma risk_assessment_processResponseData:
  "high (risk_assessment (processResponseData r f now)) =
     findImpacts ''High'' (risk_data (processResponseData r f now))"
  "medium (risk_assessment (processResponseData r f now)) =
     findImpacts ''Medium'' (risk_data (processResponseData r f now))"
  "low (risk_assessment (processResponseData r f now)) =
     findImpacts ''Low'' (risk_data (processResponseData r f now))"
  by (simp_all add: processResponseData_def Let_def)

text \<open>
  C2, amended. The aggregation returns at most three buckets, in the order High, Medium,
  Low: one for each level whose count in the risk summary is positive. When there are no
  clause assessments every bucket returned has value 0 and no impacts, and the three
  impact lists of the record are empty.
\<close>

theorem buckets_order_and_zero_state:
  "map rd_name (risk_data (processResponseData r f now)) =
     (if jless (Fin 0) (summaryCount rs_high_risk_clauses r) then [''High''] else []) @
     (if jless (Fin 0) (summaryCount rs_medium_risk_clauses r) then [''Medium''] else []) @
     (if jless (Fin 0) (summaryCount rs_low_risk_clauses r) then [''Low''] else []) \<and>
   length (risk_data (processResponseData r f now)) \<le> 3 \<and>
   (clauseAssessmentsOf r = [] \<longrightarrow>
      list_all (\<lambda>b. rd_value b = 0 \<and> rd_impacts b = [])
        (risk_data (processResponseData r f now)) \<and>
      high (risk_assessment (processResponseData r f now)) = [] \<and>
      medium (risk_assessment (processResponseData r f now)) = [] \<and>
      low (risk_assessment (processResponseData r f now)) = [])"
proof -
  have 1: "map rd_name (risk_data (processResponseData r f now)) =
     (if jless (Fin 0) (summaryCount rs_high_risk_clauses r) then [''High''] else []) @
     (if jless (Fin 0) (summaryCount rs_medium_risk_clauses r) then [''Medium''] else []) @
     (if jless (Fin 0) (summaryCount rs_low_risk_clauses r) then [''Low''] else [])"
    by (simp add: risk_data_processResponseData riskDataOf_def rd_value_riskBucket)
  have 2: "length (risk_data (processResponseData r f now)) \<le> 3"
    by (simp add: risk_data_processResponseData riskDataOf_def)
  have 3: "list_all (\<lambda>b. rd_value b = 0 \<and> rd_impacts b = [])
        (risk_data (processResponseData r f now))" if "clauseAssessmentsOf r = []"
    using riskDataOf_Nil by (simp only: risk_data_processResponseData that)
  show ?thesis
    using 1 2 3 findImpacts_all_empty[OF 3]
    by (simp add: risk_assessment_processResponseData)
qed

theorem buckets_order_and_zero_state_witness:
  "clauseAssessmentsOf payload_counts_only = [] \<and>
   map rd_name (risk_data (processResponseData payload_counts_only ''contract.pdf'' ''now'')) =
     [''High'', ''Medium''] \<and>
   list_all (\<lambda>b. rd_value b = 0 \<and> rd_impacts b = [])
     (risk_data (processResponseData payload_counts_only ''contract.pdf'' ''now'')) \<and>
   high (risk_assessment (processResponseData payload_counts_only ''contract.pdf'' ''now'')) = []"
proof -
  have h: "clauseAssessmentsOf payload_counts_only = []"
    by (simp add: payload_counts_only_def payload_empty_def clauseAssessmentsOf_def)
  note t = buckets_order_and_zero_state[of payload_counts_only "''contract.pdf''" "''now''"]
  have c: "list_all (\<lambda>b. rd_value b = 0 \<and> rd_impacts b = [])
     (risk_data (processResponseData payload_counts_only ''contract.pdf'' ''now''))"
    "high (risk_assessment (processResponseData payload_counts_only ''contract.pdf'' ''now'')) = []"
    using t h by blast+
  have s: "summaryCount rs_high_risk_clauses payload_counts_only = Fin 2"
    "summaryCount rs_medium_risk_clauses payload_counts_only = Fin 1"
    "summaryCount rs_low_risk_clauses payload_counts_only = Fin 0"
    by (simp_all add: payload_counts_only_def payload_empty_def summaryCount_def summaryOf_def
        num_or_def)
  have n: "map rd_name (risk_data (processResponseData payload_counts_only ''contract.pdf'' ''now'')) =
     [''High'', ''Medium'']"
    using t by (simp add: s)
  show ?thesis using h c n by blast
qed


lemma totals_processResponseData:
  "flagged_clauses (processResponseData r f now) =
     jadd (summaryCount rs_high_risk_clauses r) (summaryCount rs_medium_risk_clauses r)"
  "total_clauses (processResponseData r f now) = summaryCount rs_total_clauses_assessed r"
  by (simp_all add: processResponseData_def Let_def summaryCount_def summaryOf_def)

lemma summaryCount_nat:
  "field (summaryOf r) = Some (Fin (of_nat k)) \<Longrightarrow> summaryCount field r = Fin (of_nat k)"
  by (auto simp: summaryCount_def num_or_def)

lemma jadd_nat:
  assumes "h + m < 2 ^ 53"
  shows "jadd (Fin (of_nat h)) (Fin (of_nat m)) = Fin (of_nat (h + m))"
proof -
  have "\<bar>int (h + m)\<bar> < 2 ^ 53" using assms by simp
  from round64_int[OF this] show ?thesis by simp
qed

text \<open>
  C3, as stated, fails: a risk summary that reports one high-risk clause and no total
  gives one flagged clause out of a total of zero.
\<close>

theorem flagged_invariant_counterexample:
  "flagged_clauses (processResponseData payload_high_count_only ''contract.pdf'' ''now'') = Fin 1 \<and>
   total_clauses (processResponseData payload_high_count_only ''contract.pdf'' ''now'') = Fin 0 \<and>
   jless (total_clauses (processResponseData payload_high_count_only ''contract.pdf'' ''now''))
     (flagged_clauses (processResponseData payload_high_count_only ''contract.pdf'' ''now''))"
proof -
  have "summaryCount rs_high_risk_clauses payload_high_count_only = Fin (of_nat 1)"
    "summaryCount rs_medium_risk_clauses payload_high_count_only = Fin (of_nat 0)"
    "summaryCount rs_total_clauses_assessed payload_high_count_only = Fin 0"
    by (simp_all add: payload_high_count_only_def payload_empty_def emptySummary_def
        summaryCount_def summaryOf_def num_or_def)
  then show ?thesis using jadd_nat[of 1 0] by (simp add: totals_processResponseData)
qed

text \<open>
  C3, amended. The flagged count is the sum of the high and the medium count of the risk
  summary, each 0 when absent. With natural numbers \<open>h\<close>, \<open>m\<close> and \<open>t\<close> reported as
  high, medium and total, it is \<open>h + m\<close>, the total is \<open>t\<close>, and the flagged count is at
  most the total exactly when \<open>h + m \<le> t\<close>.
\<close>

theorem flagged_is_high_plus_medium:
  "flagged_clauses (processResponseData r f now) =
     jadd (summaryCount rs_high_risk_clauses r) (summaryCount rs_medium_risk_clauses r) \<and>
   (rs_high_risk_clauses (summaryOf r) = Some (Fin (of_nat h)) \<and>
    rs_medium_risk_clauses (summaryOf r) = Some (Fin (of_nat m)) \<and>
    rs_total_clauses_assessed (summaryOf r) = Some (Fin (of_nat t)) \<and> h + m < 2 ^ 53 \<longrightarrow>
      flagged_clauses (processResponseData r f now) = Fin (of_nat (h + m)) \<and>
      total_clauses (processResponseData r f now) = Fin (of_nat t) \<and>
      jle (flagged_clauses (processResponseData r f now))
          (total_clauses (processResponseData r f now)) = (h + m \<le> t))"
proof -
  have "flagged_clauses (processResponseData r f now) = Fin (of_nat (h + m)) \<and>
      total_clauses (processResponseData r f now) = Fin (of_nat t) \<and>
      jle (flagged_clauses (processResponseData r f now))
          (total_clauses (processResponseData r f now)) = (h + m \<le> t)"
    if a: "rs_high_risk_clauses (summaryOf r) = Some (Fin (of_nat h))"
      "rs_medium_risk_clauses (summaryOf r) = Some (Fin (of_nat m))"
      "rs_total_clauses_assessed (summaryOf r) = Some (Fin (of_nat t))" and b: "h + m < 2 ^ 53"
  proof -
    have F: "flagged_clauses (processResponseData r f now) = Fin (of_nat (h + m))"
      by (simp only: totals_processResponseData
          summaryCount_nat[of rs_high_risk_clauses r h, OF a(1)]
          summaryCount_nat[of rs_medium_risk_clauses r m, OF a(2)] jadd_nat[OF b])
    have T: "total_clauses (processResponseData r f now) = Fin (of_nat t)"
      by (simp only: totals_processResponseData
          summaryCount_nat[of rs_total_clauses_assessed r t, OF a(3)])
    have "jle (Fin (of_nat (h + m))) (Fin (of_nat t)) = (h + m \<le> t)"
      by (simp add: jle_def not_less del: of_nat_add)
    then show ?thesis by (simp only: F T)
  qed
  then show ?thesis by (simp only: totals_processResponseData(1)) blast
qed

theorem flagged_is_high_plus_medium_witness:
  "rs_high_risk_clauses (summaryOf payload_consistent) = Some (Fin (of_nat 2)) \<and>
   rs_medium_risk_clauses (summaryOf payload_consistent) = Some (Fin (of_nat 1)) \<and>
   rs_total_clauses_assessed (summaryOf payload_consistent) = Some (Fin (of_nat 4)) \<and>
   (2::nat) + 1 < 2 ^ 53 \<and>
   flagged_clauses (processResponseData payload_consistent ''lease.pdf'' ''now'') = Fin 3 \<and>
   total_clauses (processResponseData payload_consistent ''lease.pdf'' ''now'') = Fin 4 \<and>
   jle (flagged_clauses (processResponseData payload_consistent ''lease.pdf'' ''now''))
       (total_clauses (processResponseData payload_consistent ''lease.pdf'' ''now''))"
proof -
  have h: "rs_high_risk_clauses (summaryOf payload_consistent) = Some (Fin (of_nat 2))"
    "rs_medium_risk_clauses (summaryOf payload_consistent) = Some (Fin (of_nat 1))"
    "rs_total_clauses_assessed (summaryOf payload_consistent) = Some (Fin (of_nat 4))"
    "(2::nat) + 1 < 2 ^ 53"
    by (simp_all add: payload_consistent_def summaryOf_def)
  from flagged_is_high_plus_medium[of payload_consistent "''lease.pdf''" "''now''" 2 1 4] h
  have c: "flagged_clauses (processResponseData payload_consistent ''lease.pdf'' ''now'') =
        Fin (of_nat (2 + 1))"
    "total_clauses (processResponseData payload_consistent ''lease.pdf'' ''now'') = Fin (of_nat 4)"
    "jle (flagged_clauses (processResponseData payload_consistent ''lease.pdf'' ''now''))
       (total_clauses (processResponseData payload_consistent ''lease.pdf'' ''now'')) =
     ((2::nat) + 1 \<le> 4)"
    by blast+
  have "flagged_clauses (processResponseData payload_consistent ''lease.pdf'' ''now'') = Fin 3"
    using c(1) by simp
  moreover have "total_clauses (processResponseData payload_consistent ''lease.pdf'' ''now'') = Fin 4"
    using c(2) by simp
  moreover have "jle (flagged_clauses (processResponseData payload_consistent ''lease.pdf'' ''now''))
       (total_clauses (processResponseData payload_consistent ''lease.pdf'' ''now''))"
    using c(3) by simp
  ultimately show ?thesis using h by blast
qed

text \<open>
  C6, as stated, fails: with one clause assessment and no risk summary the total is 0,
  below the size of the clause-assessment sequence.
\<close>

theorem total_clauses_counterexample:
  "length (clauseAssessmentsOf payload_one_high_clause) = 1 \<and>
   total_clauses (processResponseData payload_one_high_clause ''contract.pdf'' ''now'') = Fin 0"
  by (simp add: totals_processResponseData summaryCount_def summaryOf_def num_or_def
      emptySummary_def clauseAssessmentsOf_def payload_one_high_clause_def payload_empty_def
      emptyAssessment_def)

text \<open>
  C6, amended. The total is the \<open>total_clauses_assessed\<close> of the risk summary, 0 when that
  is absent, zero or NaN. It does not depend on the clause assessments, the file name or
  the time: replacing the risk assessment of the payload leaves it unchanged.
\<close>

theorem total_clauses_from_summary:
  "total_clauses (processResponseData r f now) =
     (case rs_total_clauses_assessed (summaryOf r) of
        None \<Rightarrow> Fin 0
      | Some n \<Rightarrow> if n = Fin 0 \<or> n = NaN then Fin 0 else n) \<and>
   total_clauses (processResponseData (r\<lparr>resp_risk_assessment := a\<rparr>) f' now') =
     total_clauses (processResponseData r f now)"
proof -
  have t: "truthy n = (\<not> (n = Fin 0 \<or> n = NaN))" for n by (cases n) auto
  show ?thesis
    by (auto simp: totals_processResponseData summaryCount_def summaryOf_def num_or_def t
        split: option.splits)
qed

text \<open>
  C7, as stated, fails: a page count of \<open>-5\<close> is not positive and is kept.
\<close>

theorem page_count_counterexample:
  "resp_page_count payload_negative_pages = Some (Fin (- 5)) \<and>
   jless (Fin (- 5)) (Fin 0) \<and>
   page_count (processResponseData payload_negative_pages ''contract.pdf'' ''now'') = Fin (- 5)"
  by (simp add: processResponseData_def Let_def num_or_def payload_negative_pages_def
      payload_empty_def)

text \<open>
  C7, amended. The page count is 24 when the payload has none or has zero (or NaN); every
  other page count, positive, negative or infinite, is kept.
\<close>

theorem page_count_default:
  "page_count (processResponseData r f now) =
     (case resp_page_count r of
        None \<Rightarrow> Fin 24
      | Some n \<Rightarrow> if n = Fin 0 \<or> n = NaN then Fin 24 else n)"
proof -
  have t: "truthy n = (\<not> (n = Fin 0 \<or> n = NaN))" for n by (cases n) auto
  show ?thesis
    by (simp add: processResponseData_def Let_def num_or_def t split: option.splits)
qed

section \<open>The clause search\<close>

lemma startsWith_prefix: "startsWith s t = prefix t s"
  by (induction s t rule: startsWith.induct) auto

lemma str_includes_sublist: "str_includes s t = sublist t s"
  by (induction s) (simp_all add: startsWith_prefix sublist_Cons_right)

lemma matchesQuery_iff:
  "matchesQuery query c =
     (\<exists>term\<in>set (split_space (toLowerCase query)).
        sublist term (toLowerCase (title c @ '' '' @ summary c @ '' '' @ impact c)))"
  by (simp add: matchesQuery_def list_ex_iff str_includes_sublist searchableText_def)

lemma performSemanticSearch_sort:
  "performSemanticSearch clauses query =
     sortClausesByRisk (if trim query = [] then clauses else filter (matchesQuery query) clauses)"
  by (simp add: performSemanticSearch_def)

text \<open>
  C8, as stated, fails. A query that is a single tab is not empty, and no token of it
  occurs in the text of the payment clause, under either reading of the split; the search
  returns the clause. With a space after it, the query \<open>zzz\<close> returns the clause as
  well, though the clause does not contain \<open>zzz\<close>: the piece after the space is empty.
\<close>

theorem search_counterexample:
  "[CHR 0x09] \<noteq> [] \<and>
   \<not> spec_matches [CHR 0x09] clause_payment \<and>
   \<not> matchesQuery [CHR 0x09] clause_payment \<and>
   performSemanticSearch [clause_payment] [CHR 0x09] = [clause_payment] \<and>
   \<not> spec_matches ''zzz '' clause_payment \<and>
   performSemanticSearch [clause_payment] ''zzz '' = [clause_payment]"
  by code_simp

text \<open>
  C8, amended. The result is always ordered high, medium, low. For a query without a
  character that is not white space it holds all clauses. For a query with such a
  character and without an empty piece between single spaces (no space in front, at the
  end or doubled) it holds exactly the clauses that match, each as often as it is listed
  and in the listed order within a level. A clause matches when its lower-cased
  \<open>title summary impact\<close> text contains at least one piece of the lower-cased query.
\<close>

theorem search_any_piece:
  "sorted (map (\<lambda>c. riskOrder (risk c)) (performSemanticSearch clauses query)) \<and>
   (trim query = [] \<longrightarrow>
      mset (performSemanticSearch clauses query) = mset clauses) \<and>
   (trim query \<noteq> [] \<and> [] \<notin> set (split_space (toLowerCase query)) \<longrightarrow>
      mset (performSemanticSearch clauses query) = mset (filter (matchesQuery query) clauses) \<and>
      filter (\<lambda>c. riskOrder (risk c) = k) (performSemanticSearch clauses query) =
        filter (\<lambda>c. riskOrder (risk c) = k) (filter (matchesQuery query) clauses)) \<and>
   matchesQuery query c =
     (\<exists>term\<in>set (split_space (toLowerCase query)).
        sublist term (toLowerCase (title c @ '' '' @ summary c @ '' '' @ impact c)))"
proof -
  let ?xs = "if trim query = [] then clauses else filter (matchesQuery query) clauses"
  have 1: "mset (performSemanticSearch clauses query) = mset ?xs"
    by (simp only: performSemanticSearch_sort sortClausesByRisk_def mset_sort)
  have 2: "sorted (map (\<lambda>c. riskOrder (risk c)) (performSemanticSearch clauses query))"
    by (simp only: performSemanticSearch_sort sortClausesByRisk_def sorted_sort_key)
  have 3: "filter (\<lambda>c. riskOrder (risk c) = k) (performSemanticSearch clauses query) =
     filter (\<lambda>c. riskOrder (risk c) = k) ?xs"
    by (simp only: performSemanticSearch_sort sortClausesByRisk_def sort_key_stable)
  have 4: "mset (performSemanticSearch clauses query) = mset clauses" if "trim query = []"
    using 1 that by simp
  have 5: "mset (performSemanticSearch clauses query) = mset (filter (matchesQuery query) clauses)
      \<and> filter (\<lambda>c. riskOrder (risk c) = k) (performSemanticSearch clauses query) =
        filter (\<lambda>c. riskOrder (risk c) = k) (filter (matchesQuery query) clauses)"
    if "trim query \<noteq> []"
    using 1 3 that by simp
  show ?thesis using 2 4 5 matchesQuery_iff[of query c] by blast
qed

theorem search_any_piece_witness:
  "trim [CHR 0x09] = [] \<and>
   mset (performSemanticSearch [clause_payment, clause_liability] [CHR 0x09]) =
     mset [clause_payment, clause_liability] \<and>
   trim ''termination liability'' \<noteq> [] \<and>
   [] \<notin> set (split_space (toLowerCase ''termination liability'')) \<and>
   mset (performSemanticSearch [clause_termination, clause_liability, clause_payment]
     ''termination liability'') = mset [clause_termination, clause_liability]"
proof -
  have b: "trim [CHR 0x09] = []" by code_simp
  have h: "trim ''termination liability'' \<noteq> []"
    "[] \<notin> set (split_space (toLowerCase ''termination liability''))"
    by code_simp+
  have e: "filter (matchesQuery ''termination liability'')
      [clause_termination, clause_liability, clause_payment] =
      [clause_termination, clause_liability]"
    by code_simp
  have 1: "mset (performSemanticSearch [clause_payment, clause_liability] [CHR 0x09]) =
     mset [clause_payment, clause_liability]"
    using search_any_piece[of "[clause_payment, clause_liability]" "[CHR 0x09]" 0
        clause_payment] b
    by blast
  have "mset (performSemanticSearch [clause_termination, clause_liability, clause_payment]
     ''termination liability'') =
     mset (filter (matchesQuery ''termination liability'')
            [clause_termination, clause_liability, clause_payment])"
    using search_any_piece[of "[clause_termination, clause_liability, clause_payment]"
        "''termination liability''" 0 clause_termination] h
    by blast
  then have 2: "mset (performSemanticSearch [clause_termination, clause_liability, clause_payment]
     ''termination liability'') = mset [clause_termination, clause_liability]"
    by (simp only: e)
  show ?thesis using b h 1 2 by blast
qed

end
